theory Spec2Isabelle
  imports Main
begin

text \<open>
  The tab and view lifecycle of the browser shell, class \<^verbatim>\<open>BrowserLikeWindow\<close> of
  \<^verbatim>\<open>src/index.js\<close>: the fields of the object are a record, each method and each handler
  of the command channel is a function from the state to the new state, and the calls
  made on the window, the views and the ipc channel are appended to a trace.
\<close>

section \<open>JavaScript library operations used by \<^verbatim>\<open>src/index.js\<close>\<close>

text \<open>
  \<^verbatim>\<open>String.prototype.includes\<close>: does the pattern occur somewhere in the string.
\<close>

fun startsWith :: "string \<Rightarrow> string \<Rightarrow> bool" where
  "startsWith s [] = True"
| "startsWith [] (p # ps) = False"
| "startsWith (c # cs) (p # ps) = (c = p \<and> startsWith cs ps)"

fun includes_js :: "string \<Rightarrow> string \<Rightarrow> bool" where
  "includes_js [] p = (p = [])"
| "includes_js (c # cs) p = (startsWith (c # cs) p \<or> includes_js cs p)"

text \<open>
  \<^verbatim>\<open>String.prototype.replace\<close> with a string pattern: only the first occurrence is
  replaced.
\<close>

fun replace_first :: "string \<Rightarrow> string \<Rightarrow> string \<Rightarrow> string" where
  "replace_first [] p r = (if p = [] then r else [])"
| "replace_first (c # cs) p r =
     (if startsWith (c # cs) p then r @ drop (length p) (c # cs)
      else c # replace_first cs p r)"

text \<open>
  \<^verbatim>\<open>Array.prototype.indexOf\<close>: the first index holding the element, or \<open>-1\<close>.
\<close>

fun indexOf :: "'a list \<Rightarrow> 'a \<Rightarrow> int" where
  "indexOf [] x = - 1"
| "indexOf (y # ys) x =
     (if y = x then 0
      else (let i = indexOf ys x in if i < 0 then - 1 else i + 1))"

text \<open>
  Reading \<^verbatim>\<open>xs[i]\<close>: out of range the result is \<^verbatim>\<open>undefined\<close>, here \<open>None\<close>.
\<close>

definition nth_js :: "'a list \<Rightarrow> int \<Rightarrow> 'a option" where
  "nth_js xs i = (if 0 \<le> i \<and> i < int (length xs) then Some (xs ! nat i) else None)"

text \<open>
  \<^verbatim>\<open>xs.splice(start, 0, x)\<close>: insert \<open>x\<close> at \<open>start\<close>; a negative start counts from
  the end, and the start is clamped to the bounds of the array.
\<close>

definition splice_insert :: "'a list \<Rightarrow> int \<Rightarrow> 'a \<Rightarrow> 'a list" where
  "splice_insert xs start x =
     (let len = int (length xs);
          k = (if start < 0 then max (len + start) 0 else min start len)
      in take (nat k) xs @ [x] @ drop (nat k) xs)"

text \<open>
  \<^verbatim>\<open>a || b\<close> on values that are a string or \<^verbatim>\<open>undefined\<close>: the empty string and
  \<^verbatim>\<open>undefined\<close> are falsy.
\<close>

definition or_js :: "string option \<Rightarrow> string option \<Rightarrow> string option" where
  "or_js a b = (case a of None \<Rightarrow> b | Some x \<Rightarrow> if x = [] then b else Some x)"

text \<open>Decimal text of a number, as a template literal prints it.\<close>

fun digits :: "nat \<Rightarrow> string" where
  "digits n =
     (if n < 10 then [char_of (48 + n)]
      else digits (n div 10) @ [char_of (48 + n mod 10)])"

definition show_int :: "int \<Rightarrow> string" where
  "show_int i = (if i < 0 then CHR ''-'' # digits (nat (- i)) else digits (nat i))"


section \<open>Data model\<close>

text \<open>
  \<^verbatim>\<open>@typedef {number} TabID\<close>: the id of the view's webContents. The only falsy id is 0.
\<close>

type_synonym TabID = nat

text \<open>
  A \<^verbatim>\<open>Tab\<close> is a plain object: each of its properties is missing, holds \<^verbatim>\<open>undefined\<close>,
  or holds a string or a boolean. Object spread \<^verbatim>\<open>{...a, ...b}\<close> is \<open>a ++ b\<close>.
\<close>

datatype jsval = Undefined | Str string | Bool bool

datatype field = Url | Href | Title | Favicon | IsLoading | CanGoBack | CanGoForward

type_synonym Tab = "field \<rightharpoonup> jsval"

text \<open>
  \<^verbatim>\<open>@typedef {Object.<TabID, Tab>} Tabs\<close>. The close-tab handler stores \<^verbatim>\<open>undefined\<close> under
  the closed id, so a key maps to \<open>Some None\<close> when it is present and holds
  \<^verbatim>\<open>undefined\<close>, and to \<open>Some (Some t)\<close> when it holds the tab \<open>t\<close>.
\<close>

type_synonym Tabs = "TabID \<rightharpoonup> Tab option"

text \<open>
  What the shell reads from the webContents of a view. A view is stored under its own id
  (\<^verbatim>\<open>this.views[view.id] = view\<close>), so the key stands for \<^verbatim>\<open>view.id\<close>. \<open>MARKS\<close> is
  the flag \<^verbatim>\<open>__IS_INITIALIZED__\<close> that \<^verbatim>\<open>loadURL\<close> sets once the listeners are bound. The
  location and the history are the platform's: it changes them between the steps of the
  shell, and the facts about one operation below hold for whatever they are.
\<close>

record view =
  MARKS :: bool
  getURL :: string
  canGoBack :: bool
  canGoForward :: bool

datatype notification =
  ActiveUpdate TabID
| TabsUpdate Tabs "TabID list"

text \<open>
  The calls the shell makes on the window, on the views, on the ipc channel and on its own
  event emitter, in the order it makes them. A view argument is given by its id; \<open>None\<close>
  is \<^verbatim>\<open>null\<close> or \<^verbatim>\<open>undefined\<close>. The calls are recorded and taken to return; what they
  do inside the platform is not modelled. Calls that only configure a view (its
  permission handler, its user agent, the print listener) and the debug log are left out.
  \<open>ThrowTypeError\<close> records that the method ended by reading a property of
  \<^verbatim>\<open>undefined\<close>; the state it had reached by then stays.
\<close>

datatype effect =
  RemoveBrowserView "TabID option"
| AddBrowserView "TabID option"
| SetBounds TabID
| SetAutoResize TabID
| Reply notification
| WebContentsDestroy TabID
| WebContentsLoadURL TabID string
| WebContentsFocus TabID
| WebContentsCall TabID string
| EmitUrlUpdated TabID string
| EmitControlReady
| LogError string
| ThrowTypeError

record Options =
  startPage :: "string option"
  blankPage :: "string option"
  blankTitle :: "string option"

text \<open>
  What the module takes from outside: the \<^verbatim>\<open>file-url\<close> package, \<^verbatim>\<open>__dirname\<close>, the
  constructor's options, and which property names of a webContents are functions.
\<close>

record env =
  fileUrl :: "string \<Rightarrow> string"
  dirname :: string
  options :: Options
  isFunction :: "string \<Rightarrow> bool"

record shell =
  defCurrentViewId :: "TabID option"
  defTabConfigs :: Tabs
  views :: "TabID \<rightharpoonup> view"
  tabs :: "TabID list"
  ipc :: bool
  trace :: "effect list"

text \<open>The state the constructor leaves.\<close>

definition init :: shell where
  "init = \<lparr>defCurrentViewId = None, defTabConfigs = Map.empty, views = Map.empty,
           tabs = [], ipc = False, trace = []\<rparr>"

text \<open>A fresh \<^verbatim>\<open>BrowserView\<close>: nothing loaded, no history, no listeners.\<close>

definition newView :: view where
  "newView = \<lparr>MARKS = False, getURL = [], canGoBack = False, canGoForward = False\<rparr>"


section \<open>Accessors\<close>

definition call :: "shell \<Rightarrow> effect \<Rightarrow> shell" where
  "call s e = s\<lparr>trace := trace s @ [e]\<rparr>"

definition currentViewId :: "shell \<Rightarrow> TabID option" where
  "currentViewId s = defCurrentViewId s"

definition currentView :: "shell \<Rightarrow> (TabID \<times> view) option" where
  "currentView s =
     (case currentViewId s of
        None \<Rightarrow> None
      | Some i \<Rightarrow> if i = 0 then None else map_option (Pair i) (views s i))"

definition tabConfigs :: "shell \<Rightarrow> Tabs" where
  "tabConfigs s = defTabConfigs s"

text \<open>\<^verbatim>\<open>obj[key]\<close>: a missing key and a key holding \<^verbatim>\<open>undefined\<close> read the same.\<close>

definition getProp :: "Tabs \<Rightarrow> TabID \<Rightarrow> Tab option" where
  "getProp m i = (case m i of None \<Rightarrow> None | Some v \<Rightarrow> v)"

text \<open>\<^verbatim>\<open>...tab\<close>: spreading \<^verbatim>\<open>undefined\<close> adds nothing.\<close>

definition spread :: "Tab option \<Rightarrow> Tab" where
  "spread t = (case t of None \<Rightarrow> Map.empty | Some m \<Rightarrow> m)"

definition setContentBounds :: "shell \<Rightarrow> shell" where
  "setContentBounds s =
     (case currentView s of None \<Rightarrow> s | Some (i, v) \<Rightarrow> call s (SetBounds i))"

definition set_currentViewId :: "shell \<Rightarrow> TabID \<Rightarrow> shell" where
  "set_currentViewId s i =
     (let s1 = setContentBounds (s\<lparr>defCurrentViewId := Some i\<rparr>)
      in if ipc s1 then call s1 (Reply (ActiveUpdate i)) else s1)"

definition set_tabConfigs :: "shell \<Rightarrow> Tabs \<Rightarrow> shell" where
  "set_tabConfigs s v =
     (let s1 = s\<lparr>defTabConfigs := v\<rparr>
      in if ipc s1 then call s1 (Reply (TabsUpdate v (tabs s1))) else s1)"


section \<open>Methods of \<^verbatim>\<open>BrowserLikeWindow\<close>\<close>

definition setTabConfig :: "shell \<Rightarrow> TabID \<Rightarrow> Tab \<Rightarrow> shell" where
  "setTabConfig s viewId kv =
     (let tab = getProp (tabConfigs s) viewId;
          webContents = views s viewId
      in set_tabConfigs s
           ((tabConfigs s)(viewId \<mapsto> Some
              ((spread tab
                ++ [CanGoBack \<mapsto>
                      (case webContents of None \<Rightarrow> Undefined | Some w \<Rightarrow> Bool (canGoBack w)),
                    CanGoForward \<mapsto>
                      (case webContents of None \<Rightarrow> Undefined | Some w \<Rightarrow> Bool (canGoForward w))])
                ++ kv))))"

definition builtin :: "env \<Rightarrow> string \<Rightarrow> string" where
  "builtin e name = fileUrl e (dirname e @ ''/main/renderer/'' @ name @ ''.html'')"

definition loadURL :: "env \<Rightarrow> shell \<Rightarrow> string option \<Rightarrow> shell" where
  "loadURL e s url =
     (case url of
        None \<Rightarrow> s
      | Some u \<Rightarrow>
          if u = [] then s
          else (case currentView s of
                  None \<Rightarrow> s
                | Some (i, v) \<Rightarrow>
                    if MARKS v then
                      call s (WebContentsLoadURL i
                        (if includes_js u ''px://''
                         then builtin e (replace_first u ''px://'' [])
                         else u))
                    else
                      setContentBounds
                        ((call s (WebContentsLoadURL i u))
                           \<lparr>views := (views s)(i \<mapsto> v\<lparr>MARKS := True\<rparr>)\<rparr>)))"

definition setCurrentView :: "shell \<Rightarrow> TabID option \<Rightarrow> shell" where
  "setCurrentView s viewId =
     (case viewId of
        None \<Rightarrow> s
      | Some i \<Rightarrow>
          if i = 0 then s
          else set_currentViewId
                 (call (call s (RemoveBrowserView (map_option fst (currentView s))))
                       (AddBrowserView (map_option (\<lambda>v. i) (views s i))))
                 i)"

definition newTab :: "env \<Rightarrow> shell \<Rightarrow> string option \<Rightarrow> TabID option \<Rightarrow> TabID \<Rightarrow> shell" where
  "newTab e s url appendTo vid =
     (let s1 = s\<lparr>tabs :=
                  (case appendTo of
                     None \<Rightarrow> tabs s @ [vid]
                   | Some a \<Rightarrow>
                       if a = 0 then tabs s @ [vid]
                       else (let prevIndex = indexOf (tabs s) a
                             in splice_insert (tabs s) (prevIndex + 1) vid))\<rparr>;
          s2 = s1\<lparr>views := (views s1)(vid \<mapsto> newView)\<rparr>;
          s3 = setCurrentView s2 (Some vid);
          s4 = call s3 (SetAutoResize vid);
          s5 = loadURL e s4 (or_js url (blankPage (options e)))
      in setTabConfig s5 vid
           [Title \<mapsto> Str (case or_js (blankTitle (options e)) (Some ''about:blank'') of
                             None \<Rightarrow> [] | Some t \<Rightarrow> t)])"

definition switchTab :: "shell \<Rightarrow> TabID \<Rightarrow> shell" where
  "switchTab s viewId =
     (let s1 = setCurrentView s (Some viewId)
      in case currentView s1 of
           None \<Rightarrow> call s1 ThrowTypeError
         | Some (i, v) \<Rightarrow> call s1 (WebContentsFocus i))"

definition destroyView :: "shell \<Rightarrow> TabID \<Rightarrow> shell" where
  "destroyView s viewId =
     (case views s viewId of
        None \<Rightarrow> s
      | Some v \<Rightarrow> (call s (WebContentsDestroy viewId))\<lparr>views := (views s)(viewId := None)\<rparr>)"


section \<open>The command channel\<close>

definition webContentsAct :: "env \<Rightarrow> shell \<Rightarrow> string \<Rightarrow> shell" where
  "webContentsAct e s actionName =
     (case currentView s of
        None \<Rightarrow> call s (LogError actionName)
      | Some (i, v) \<Rightarrow>
          if isFunction e actionName then
            (if actionName = ''reload'' \<and> getURL v = [] then s
             else call s (WebContentsCall i actionName))
          else call s (LogError actionName))"

definition controlReady :: "env \<Rightarrow> shell \<Rightarrow> TabID \<Rightarrow> shell" where
  "controlReady e s vid =
     call (newTab e (s\<lparr>ipc := True\<rparr>) (or_js (startPage (options e)) (Some [])) None vid)
          EmitControlReady"

definition closeTab :: "env \<Rightarrow> shell \<Rightarrow> TabID \<Rightarrow> TabID \<Rightarrow> shell" where
  "closeTab e s i vid =
     (let s1 = (if Some i = currentViewId s then
                  (let removeIndex = indexOf (tabs s) i;
                       nextIndex = (if removeIndex = int (length (tabs s)) - 1 then 0
                                    else removeIndex + 1)
                   in setCurrentView s (nth_js (tabs s) nextIndex))
                else s);
          s2 = s1\<lparr>tabs := filter (\<lambda>v. v \<noteq> i) (tabs s1)\<rparr>;
          s3 = set_tabConfigs s2 ((tabConfigs s2)(i \<mapsto> None));
          s4 = destroyView s3 i
      in if length (tabs s4) = 0 then newTab e s4 None None vid else s4)"

text \<open>
  The commands of the control surface. A command that creates a view carries the id the
  platform gives to the new view's webContents.
\<close>

datatype command =
  ControlReady TabID
| NewTab "string option" TabID
| SwitchTab TabID
| CloseTab TabID TabID

fun run :: "env \<Rightarrow> shell \<Rightarrow> command \<Rightarrow> shell" where
  "run e s (ControlReady vid) = controlReady e s vid"
| "run e s (NewTab url vid) = newTab e s url None vid"
| "run e s (SwitchTab i) = switchTab s i"
| "run e s (CloseTab i vid) = closeTab e s i vid"

definition runs :: "env \<Rightarrow> shell \<Rightarrow> command list \<Rightarrow> shell" where
  "runs e s cs = foldl (run e) s cs"


section \<open>The listeners bound to a view by \<^verbatim>\<open>loadURL\<close>\<close>

definition rewrite :: "env \<Rightarrow> string \<Rightarrow> string" where
  "rewrite e href =
     (let h0 = (if Some href = blankPage (options e) then [] else href);
          h1 = (if includes_js h0 (builtin e ''settings'') then ''px://settings'' else h0);
          h2 = (if includes_js h1 (builtin e ''about'') then ''px://about'' else h1);
          h3 = (if includes_js h2 (builtin e ''help'') then ''px://help'' else h2);
          h4 = (if includes_js h3 (builtin e ''web_fail_code'') then ''px://network-error'' else h3);
          h5 = (if includes_js h4 (builtin e ''credits'') then ''px://credits'' else h4)
      in h5)"

definition didStartNavigation :: "env \<Rightarrow> shell \<Rightarrow> TabID \<Rightarrow> string \<Rightarrow> bool \<Rightarrow> bool \<Rightarrow> shell" where
  "didStartNavigation e s i href isInPlace isMainFrame =
     (if isMainFrame then
        (let h = rewrite e href
         in call (setTabConfig s i [Url \<mapsto> Str h, Href \<mapsto> Str h]) (EmitUrlUpdated i h))
      else s)"

definition willRedirect :: "shell \<Rightarrow> TabID \<Rightarrow> string \<Rightarrow> shell" where
  "willRedirect s i href =
     call (setTabConfig s i [Url \<mapsto> Str href, Href \<mapsto> Str href]) (EmitUrlUpdated i href)"

definition didFailLoad :: "env \<Rightarrow> shell \<Rightarrow> TabID \<Rightarrow> int \<Rightarrow> string \<Rightarrow> string \<Rightarrow> shell" where
  "didFailLoad e s i code desc url =
     setTabConfig
       (call s (WebContentsLoadURL i
          (builtin e ''web_fail_code'' @ ''?errorDescription='' @ desc
             @ ''&code='' @ show_int code @ ''&url='' @ url)))
       i [IsLoading \<mapsto> Bool False]"

text \<open>
  The events of a webContents that the chain of listeners from \<^verbatim>\<open>did-start-loading\<close> to
  \<^verbatim>\<open>dom-ready\<close> handles, with the arguments the platform passes. The listener of
  \<^verbatim>\<open>will-redirect\<close> is \<^verbatim>\<open>(e, href) => ...\<close>: it takes the location and drops the rest.
  The listeners of \<^verbatim>\<open>new-window\<close> and \<^verbatim>\<open>unresponsive\<close> are not modelled.
\<close>

datatype event =
  DidStartLoading
| DidFailLoad int string string bool
| DidStartNavigation string bool bool
| WillRedirect string bool bool
| PageTitleUpdated string
| PageFaviconUpdated "string list"
| DidStopLoading
| DomReady

fun listener :: "env \<Rightarrow> shell \<Rightarrow> TabID \<Rightarrow> event \<Rightarrow> shell" where
  "listener e s i DidStartLoading = setTabConfig s i [IsLoading \<mapsto> Bool True]"
| "listener e s i (DidFailLoad code desc url isMainFrame) = didFailLoad e s i code desc url"
| "listener e s i (DidStartNavigation href isInPlace isMainFrame) =
     didStartNavigation e s i href isInPlace isMainFrame"
| "listener e s i (WillRedirect href isInPlace isMainFrame) = willRedirect s i href"
| "listener e s i (PageTitleUpdated title) = setTabConfig s i [Title \<mapsto> Str title]"
| "listener e s i (PageFaviconUpdated favicons) =
     setTabConfig s i
       [Favicon \<mapsto> (case favicons of [] \<Rightarrow> Undefined | f # fs \<Rightarrow> Str f)]"
| "listener e s i DidStopLoading = setTabConfig s i [IsLoading \<mapsto> Bool False]"
| "listener e s i DomReady = call s (WebContentsFocus i)"

text \<open>An event reaches the listeners of a view that exists and that \<^verbatim>\<open>loadURL\<close> has marked.\<close>

definition emit_event :: "env \<Rightarrow> shell \<Rightarrow> TabID \<Rightarrow> event \<Rightarrow> shell" where
  "emit_event e s i ev =
     (case views s i of
        None \<Rightarrow> s
      | Some v \<Rightarrow> if MARKS v then listener e s i ev else s)"


section \<open>Notions the properties are stated with\<close>

text \<open>
  A tab id has an entry in the config store when reading it yields a tab: a key that holds
  \<^verbatim>\<open>undefined\<close> reads like a missing key, in the shell and in the control surface
  (\<^verbatim>\<open>tabs[id] || {}\<close>).
\<close>

definition hasEntry :: "Tabs \<Rightarrow> TabID \<Rightarrow> bool" where
  "hasEntry m i = (getProp m i \<noteq> None)"

text \<open>
  Synchronized by keys, as the claim has it: the ids of the tab sequence are the keys of
  the config store.
\<close>

definition keySync :: "shell \<Rightarrow> bool" where
  "keySync s = (set (tabs s) = dom (tabConfigs s))"

text \<open>
  Synchronized as read: the ids of the tab sequence are the ids under which a tab is read
  from the config store. A key that holds \<^verbatim>\<open>undefined\<close> does not count.
\<close>

definition readSync :: "shell \<Rightarrow> bool" where
  "readSync s = (set (tabs s) = {i. hasEntry (tabConfigs s) i})"

text \<open>
  A concrete environment, and the shell after the control surface has reported ready and
  opened two more tabs, with the second of the three tabs active.
\<close>

definition demo_env :: env where
  "demo_env = \<lparr>fileUrl = (\<lambda>p. ''file://'' @ p), dirname = ''/app'',
     options = \<lparr>startPage = None, blankPage = None, blankTitle = None\<rparr>,
     isFunction = (\<lambda>n. n = ''reload'' \<or> n = ''goBack'' \<or> n = ''goForward'' \<or> n = ''stop'')\<rparr>"

definition demo_three :: shell where
  "demo_three = runs demo_env init [ControlReady 1, NewTab None 2, NewTab None 3, SwitchTab 2]"

text \<open>The shell with its first tab only, and the three-tab shell with a page loaded in the active tab.\<close>

definition demo_one :: shell where
  "demo_one = runs demo_env init [ControlReady 1]"

definition demo_loaded :: shell where
  "demo_loaded = demo_three\<lparr>views := (views demo_three)(2 \<mapsto>
      \<lparr>MARKS = True, getURL = ''https://example.com/'', canGoBack = False,
       canGoForward = False\<rparr>)\<rparr>"

text \<open>
  The shell after the second of two tabs has been closed, and the shell whose second tab
  was opened with a url, so that \<^verbatim>\<open>loadURL\<close> has bound the listeners of its view.
\<close>

definition demo_closed :: shell where
  "demo_closed = runs demo_env init [ControlReady 1, NewTab None 2, CloseTab 2 3]"

definition demo_browsing :: shell where
  "demo_browsing = runs demo_env init [ControlReady 1, NewTab (Some ''https://example.com/'') 2]"

text \<open>An entry merged for an id that has no view.\<close>

definition demo_orphan :: shell where
  "demo_orphan = setTabConfig init 7 [Title \<mapsto> Str ''old'', CanGoBack \<mapsto> Bool True]"

text \<open>
  The built-in pages in the order the listener tests them, each with the address it is
  shown under.
\<close>

definition builtinPages :: "(string \<times> string) list" where
  "builtinPages =
     [(''settings'', ''px://settings''), (''about'', ''px://about''), (''help'', ''px://help''),
      (''web_fail_code'', ''px://network-error''), (''credits'', ''px://credits'')]"

text \<open>The first built-in page whose physical locator occurs in the loaded locator.\<close>

definition firstMatch :: "env \<Rightarrow> string \<Rightarrow> (string \<times> string) option" where
  "firstMatch e href = find (\<lambda>(n, v). includes_js href (builtin e n)) builtinPages"

text \<open>No physical locator of a built-in page occurs inside a virtual address.\<close>

definition virtualClean :: "env \<Rightarrow> bool" where
  "virtualClean e =
     (\<forall>(n, v) \<in> set builtinPages. \<forall>(m, w) \<in> set builtinPages. \<not> includes_js w (builtin e n))"

text \<open>
  The locator of the error page that \<^verbatim>\<open>did-fail-load\<close> loads when the settings page itself
  fails with \<^verbatim>\<open>ERR_ABORTED\<close>.
\<close>

definition demo_fail_href :: string where
  "demo_fail_href = builtin demo_env ''web_fail_code''
     @ ''?errorDescription=ERR_ABORTED&code=-3&url='' @ builtin demo_env ''settings''"

text \<open>The locator of the same error page when the credits page fails.\<close>

definition demo_credits_fail_href :: string where
  "demo_credits_fail_href = builtin demo_env ''web_fail_code''
     @ ''?errorDescription=ERR_ABORTED&code=-3&url='' @ builtin demo_env ''credits''"

text \<open>
  The data model's invariant: ids are distinct and truthy, every tab has a view, and the
  active id names a tab of the sequence (there is none only while there is no tab).
\<close>

definition wellFormed :: "shell \<Rightarrow> bool" where
  "wellFormed s =
     (distinct (tabs s) \<and> 0 \<notin> set (tabs s)
      \<and> (case currentViewId s of None \<Rightarrow> tabs s = [] | Some a \<Rightarrow> a \<in> set (tabs s))
      \<and> list_all (\<lambda>i. views s i \<noteq> None) (tabs s))"

text \<open>
  The preconditions of the commands: the platform gives a new view an id that is truthy and
  not in use, and switch-tab and close-tab name a tab of the sequence.
\<close>

fun allowed :: "shell \<Rightarrow> command \<Rightarrow> bool" where
  "allowed s (ControlReady vid) = (vid \<noteq> 0 \<and> vid \<notin> set (tabs s))"
| "allowed s (NewTab url vid) = (vid \<noteq> 0 \<and> vid \<notin> set (tabs s))"
| "allowed s (SwitchTab i) = (i \<in> set (tabs s))"
| "allowed s (CloseTab i vid) = (i \<in> set (tabs s) \<and> vid \<noteq> 0 \<and> vid \<notin> set (tabs s))"

fun allowedRun :: "env \<Rightarrow> shell \<Rightarrow> command list \<Rightarrow> bool" where
  "allowedRun e s [] = True"
| "allowedRun e s (c # cs) = (allowed s c \<and> allowedRun e (run e s c) cs)"

text \<open>
  What happens to the shell: a command of the control surface, or an event of the
  webContents of a view.
\<close>

datatype action = Command command | Event TabID event

fun step :: "env \<Rightarrow> shell \<Rightarrow> action \<Rightarrow> shell" where
  "step e s (Command c) = run e s c"
| "step e s (Event i ev) = emit_event e s i ev"

definition steps :: "env \<Rightarrow> shell \<Rightarrow> action list \<Rightarrow> shell" where
  "steps e s as = foldl (step e) s as"

text \<open>Only tabs of the sequence have a view.\<close>

definition viewsOfTabs :: "shell \<Rightarrow> bool" where
  "viewsOfTabs s = (dom (views s) \<subseteq> set (tabs s))"


section \<open>Facts about the JavaScript operations\<close>

lemma startsWith_iff: "startsWith s p \<longleftrightarrow> (\<exists>b. s = p @ b)"
  by (induction s p rule: startsWith.induct) auto

lemma includes_js_iff: "includes_js s p \<longleftrightarrow> (\<exists>a b. s = a @ p @ b)"
proof (induction s)
  case Nil
  then show ?case by auto
next
  case (Cons c cs)
  show ?case
  proof
    assume "includes_js (c # cs) p"
    then consider "startsWith (c # cs) p" | "includes_js cs p" by auto
    then show "\<exists>a b. c # cs = a @ p @ b"
    proof cases
      case 1
      then obtain b where "c # cs = [] @ p @ b" by (auto simp add: startsWith_iff)
      then show ?thesis by blast
    next
      case 2
      then obtain a b where "cs = a @ p @ b" using Cons.IH by blast
      then have "c # cs = (c # a) @ p @ b" by simp
      then show ?thesis by blast
    qed
  next
    assume "\<exists>a b. c # cs = a @ p @ b"
    then obtain a b where ab: "c # cs = a @ p @ b" by blast
    show "includes_js (c # cs) p"
    proof (cases a)
      case Nil
      then have "startsWith (c # cs) p" using ab by (auto simp add: startsWith_iff)
      then show ?thesis by simp
    next
      case (Cons x a')
      then have "cs = a' @ p @ b" using ab by simp
      then have "includes_js cs p" using Cons.IH by blast
      then show ?thesis by simp
    qed
  qed
qed

lemma indexOf_first: "i \<notin> set xs \<Longrightarrow> indexOf (xs @ i # ys) i = int (length xs)"
  by (induction xs) (auto simp add: Let_def)

lemma indexOf_absent: "i \<notin> set xs \<Longrightarrow> indexOf xs i = - 1"
  by (induction xs) (auto simp add: Let_def)

lemma indexOf_range: "- 1 \<le> indexOf xs i \<and> indexOf xs i < int (length xs)"
  by (induction xs) (auto simp add: Let_def)

lemma indexOf_absent_iff: "indexOf xs x = - 1 \<longleftrightarrow> x \<notin> set xs"
proof (induction xs)
  case Nil
  then show ?case by simp
next
  case (Cons y ys)
  have "- 1 \<le> indexOf ys x" using indexOf_range [of ys x] by simp
  then show ?case using Cons.IH by (auto simp add: Let_def)
qed

lemma indexOf_present:
  "x \<in> set xs \<Longrightarrow>
     0 \<le> indexOf xs x \<and> xs ! nat (indexOf xs x) = x
     \<and> x \<notin> set (take (nat (indexOf xs x)) xs)"
proof -
  assume "x \<in> set xs"
  then obtain ys zs where sp: "xs = ys @ x # zs" "x \<notin> set ys"
    by (meson split_list_first)
  then have "indexOf xs x = int (length ys)" by (simp add: indexOf_first)
  then show ?thesis using sp by simp
qed

lemma set_splice_insert: "set (splice_insert xs k x) = insert x (set xs)"
proof -
  have "set (take n xs) \<union> set (drop n xs) = set xs" for n
    by (metis append_take_drop_id set_append)
  then show ?thesis
    by (auto simp add: splice_insert_def Let_def)
qed

lemma splice_insert_after:
  "splice_insert (xs @ a # ys) (int (length xs) + 1) v = xs @ a # v # ys"
proof -
  have "nat (int (length xs) + 1) = Suc (length xs)" by simp
  then show ?thesis by (simp add: splice_insert_def Let_def)
qed

lemma splice_insert_front: "splice_insert xs 0 v = v # xs"
  by (simp add: splice_insert_def Let_def)

lemma distinct_splice_insert:
  "distinct xs \<Longrightarrow> v \<notin> set xs \<Longrightarrow> distinct (splice_insert xs k v)"
proof -
  assume d: "distinct xs" and v: "v \<notin> set xs"
  have "set (take n xs) \<inter> set (drop n xs) = {}" for n
    using d by (simp add: set_take_disj_set_drop_if_distinct)
  then have "distinct (take n xs @ [v] @ drop n xs)" for n
    using v d by (auto dest: in_set_takeD in_set_dropD)
  then show ?thesis by (simp add: splice_insert_def Let_def)
qed

lemma getProp_upd: "getProp (m(i \<mapsto> v)) j = (if j = i then v else getProp m j)"
  by (simp add: getProp_def)

lemma hasEntry_upd: "hasEntry (m(i \<mapsto> v)) j = (if j = i then v \<noteq> None else hasEntry m j)"
  by (simp add: hasEntry_def getProp_def)


section \<open>Which fields each operation touches\<close>

lemma call_fields [simp]:
  "tabs (call s x) = tabs s" "views (call s x) = views s"
  "defTabConfigs (call s x) = defTabConfigs s" "defCurrentViewId (call s x) = defCurrentViewId s"
  "ipc (call s x) = ipc s" "trace (call s x) = trace s @ [x]"
  by (simp_all add: call_def)

lemma currentView_cong:
  "defCurrentViewId s' = defCurrentViewId s \<Longrightarrow> views s' = views s \<Longrightarrow> currentView s' = currentView s"
  by (simp add: currentView_def currentViewId_def split: option.splits)

lemma setContentBounds_fields [simp]:
  "tabs (setContentBounds s) = tabs s" "views (setContentBounds s) = views s"
  "defTabConfigs (setContentBounds s) = defTabConfigs s"
  "defCurrentViewId (setContentBounds s) = defCurrentViewId s"
  "ipc (setContentBounds s) = ipc s"
  by (simp_all add: setContentBounds_def split: option.splits prod.splits)

lemma set_currentViewId_fields [simp]:
  "tabs (set_currentViewId s i) = tabs s" "views (set_currentViewId s i) = views s"
  "defTabConfigs (set_currentViewId s i) = defTabConfigs s"
  "defCurrentViewId (set_currentViewId s i) = Some i"
  "ipc (set_currentViewId s i) = ipc s"
  by (simp_all add: set_currentViewId_def Let_def)

lemma set_tabConfigs_fields [simp]:
  "tabs (set_tabConfigs s v) = tabs s" "views (set_tabConfigs s v) = views s"
  "defTabConfigs (set_tabConfigs s v) = v"
  "defCurrentViewId (set_tabConfigs s v) = defCurrentViewId s"
  "ipc (set_tabConfigs s v) = ipc s"
  by (simp_all add: set_tabConfigs_def Let_def)

lemma setTabConfig_fields [simp]:
  "tabs (setTabConfig s i kv) = tabs s" "views (setTabConfig s i kv) = views s"
  "defCurrentViewId (setTabConfig s i kv) = defCurrentViewId s"
  "ipc (setTabConfig s i kv) = ipc s"
  by (simp_all add: setTabConfig_def Let_def)

lemma setTabConfig_entry:
  "getProp (defTabConfigs (setTabConfig s i kv)) j =
     (if j = i then Some ((spread (getProp (defTabConfigs s) i)
                ++ [CanGoBack \<mapsto>
                      (case views s i of None \<Rightarrow> Undefined | Some w \<Rightarrow> Bool (canGoBack w)),
                    CanGoForward \<mapsto>
                      (case views s i of None \<Rightarrow> Undefined | Some w \<Rightarrow> Bool (canGoForward w))])
                ++ kv)
      else getProp (defTabConfigs s) j)"
  by (simp add: setTabConfig_def Let_def getProp_def tabConfigs_def)

lemma setTabConfig_hasEntry:
  "hasEntry (defTabConfigs (setTabConfig s i kv)) j \<longleftrightarrow> j = i \<or> hasEntry (defTabConfigs s) j"
  by (simp add: setTabConfig_def Let_def tabConfigs_def hasEntry_upd)

lemma setTabConfig_merged:
  "getProp (tabConfigs (setTabConfig s i kv)) i = Some t \<Longrightarrow>
   t f = (case kv f of
            Some v \<Rightarrow> Some v
          | None \<Rightarrow>
              if f = CanGoBack then
                Some (case views s i of None \<Rightarrow> Undefined | Some w \<Rightarrow> Bool (canGoBack w))
              else if f = CanGoForward then
                Some (case views s i of None \<Rightarrow> Undefined | Some w \<Rightarrow> Bool (canGoForward w))
              else spread (getProp (tabConfigs s) i) f)"
  by (auto simp add: tabConfigs_def setTabConfig_entry map_add_def split: option.splits)

lemma setTabConfig_other:
  "j \<noteq> i \<Longrightarrow> getProp (tabConfigs (setTabConfig s i kv)) j = getProp (tabConfigs s) j"
  by (simp add: tabConfigs_def setTabConfig_entry)

lemma setCurrentView_fields [simp]:
  "tabs (setCurrentView s v) = tabs s" "views (setCurrentView s v) = views s"
  "defTabConfigs (setCurrentView s v) = defTabConfigs s"
  "ipc (setCurrentView s v) = ipc s"
  by (simp_all add: setCurrentView_def split: option.splits)

lemma setCurrentView_active:
  "defCurrentViewId (setCurrentView s v) =
     (case v of None \<Rightarrow> defCurrentViewId s | Some i \<Rightarrow> if i = 0 then defCurrentViewId s else Some i)"
  by (simp add: setCurrentView_def split: option.splits)

lemma setCurrentView_currentViewId:
  "i \<noteq> 0 \<Longrightarrow> currentViewId (setCurrentView s (Some i)) = Some i"
  by (simp add: currentViewId_def setCurrentView_active)

lemma loadURL_fields [simp]:
  "tabs (loadURL e s u) = tabs s"
  "defTabConfigs (loadURL e s u) = defTabConfigs s"
  "defCurrentViewId (loadURL e s u) = defCurrentViewId s"
  "ipc (loadURL e s u) = ipc s"
  by (simp_all add: loadURL_def split: option.splits prod.splits)

lemma loadURL_views:
  "views (loadURL e s u) i = None \<longleftrightarrow> views s i = None"
  by (auto simp add: loadURL_def currentView_def split: option.splits prod.splits if_splits)

lemma loadURL_nothing: "loadURL e s None = s"
  by (simp add: loadURL_def)

lemma destroyView_fields [simp]:
  "tabs (destroyView s i) = tabs s" "views (destroyView s i) = (views s)(i := None)"
  "defTabConfigs (destroyView s i) = defTabConfigs s"
  "defCurrentViewId (destroyView s i) = defCurrentViewId s"
  "ipc (destroyView s i) = ipc s"
  by (auto simp add: destroyView_def split: option.splits)

lemma switchTab_fields:
  "tabs (switchTab s i) = tabs s" "views (switchTab s i) = views s"
  "defTabConfigs (switchTab s i) = defTabConfigs s" "ipc (switchTab s i) = ipc s"
  "defCurrentViewId (switchTab s i) = (if i = 0 then defCurrentViewId s else Some i)"
  by (simp_all add: switchTab_def Let_def setCurrentView_active split: option.splits prod.splits)

lemma newTab_tabs:
  "tabs (newTab e s url a vid) =
     (case a of
        None \<Rightarrow> tabs s @ [vid]
      | Some b \<Rightarrow> if b = 0 then tabs s @ [vid]
                  else splice_insert (tabs s) (indexOf (tabs s) b + 1) vid)"
  by (simp add: newTab_def Let_def split: option.splits)

lemma newTab_set_tabs: "set (tabs (newTab e s url a vid)) = insert vid (set (tabs s))"
  by (simp add: newTab_tabs set_splice_insert split: option.splits)

lemma newTab_entry:
  "hasEntry (defTabConfigs (newTab e s url a vid)) j \<longleftrightarrow>
     j = vid \<or> hasEntry (defTabConfigs s) j"
  by (simp add: newTab_def Let_def setTabConfig_hasEntry)

lemma newTab_other_keys:
  "j \<noteq> vid \<Longrightarrow> defTabConfigs (newTab e s url a vid) j = defTabConfigs s j"
  by (simp add: newTab_def Let_def setTabConfig_def tabConfigs_def)

lemma newTab_active:
  "defCurrentViewId (newTab e s url a vid) = (if vid = 0 then defCurrentViewId s else Some vid)"
  by (simp add: newTab_def Let_def setCurrentView_active)

lemma newTab_ipc [simp]: "ipc (newTab e s url a vid) = ipc s"
  by (simp add: newTab_def Let_def)

lemma newTab_views: "views (newTab e s url a vid) j = None \<longleftrightarrow> j \<noteq> vid \<and> views s j = None"
  by (simp add: newTab_def Let_def loadURL_views)

lemma newTab_views_blank:
  "or_js url (blankPage (options e)) = None \<Longrightarrow>
   views (newTab e s url a vid) = (views s)(vid \<mapsto> newView)"
  by (simp add: newTab_def Let_def loadURL_nothing)

lemma controlReady_fields:
  "tabs (controlReady e s vid) = tabs s @ [vid]"
  "defCurrentViewId (controlReady e s vid) = (if vid = 0 then defCurrentViewId s else Some vid)"
  "ipc (controlReady e s vid)"
  by (simp_all add: controlReady_def newTab_tabs newTab_active)

lemma controlReady_views_blank:
  "or_js (or_js (startPage (options e)) (Some [])) (blankPage (options e)) = None \<Longrightarrow>
   views (controlReady e s vid) = (views s)(vid \<mapsto> newView)"
  by (simp add: controlReady_def newTab_views_blank)

lemma closeTab_decompose:
  "closeTab e s i vid =
     (let s1 = (if Some i = currentViewId s then
                  setCurrentView s (nth_js (tabs s)
                    (if indexOf (tabs s) i = int (length (tabs s)) - 1 then 0
                     else indexOf (tabs s) i + 1))
                else s);
          s4 = destroyView
                 (set_tabConfigs (s1\<lparr>tabs := filter (\<lambda>v. v \<noteq> i) (tabs s)\<rparr>)
                    ((tabConfigs s)(i \<mapsto> None))) i
      in if filter (\<lambda>v. v \<noteq> i) (tabs s) = [] then newTab e s4 None None vid else s4)"
  by (simp add: closeTab_def Let_def tabConfigs_def)

lemma closeTab_tabs_pre:
  "tabs (closeTab e s i vid) =
     (if filter (\<lambda>v. v \<noteq> i) (tabs s) = [] then [vid] else filter (\<lambda>v. v \<noteq> i) (tabs s))"
  by (simp add: closeTab_def Let_def newTab_tabs)

lemma closeTab_entry:
  "hasEntry (defTabConfigs (closeTab e s i vid)) j \<longleftrightarrow>
     (if filter (\<lambda>v. v \<noteq> i) (tabs s) = [] then j = vid \<or> (j \<noteq> i \<and> hasEntry (defTabConfigs s) j)
      else j \<noteq> i \<and> hasEntry (defTabConfigs s) j)"
  by (simp add: closeTab_def Let_def newTab_entry tabConfigs_def hasEntry_upd)

lemma closeTab_views:
  "views (closeTab e s i vid) j = None \<longleftrightarrow>
     (if filter (\<lambda>v. v \<noteq> i) (tabs s) = [] then j \<noteq> vid \<and> (j = i \<or> views s j = None)
      else j = i \<or> views s j = None)"
  by (simp add: closeTab_decompose Let_def newTab_views)

lemma closeTab_next:
  assumes "i \<notin> set xs" "xs @ ys \<noteq> []"
  shows "nth_js (xs @ i # ys)
           (if indexOf (xs @ i # ys) i = int (length (xs @ i # ys)) - 1 then 0
            else indexOf (xs @ i # ys) i + 1)
         = Some (case ys of [] \<Rightarrow> hd xs | y # zs \<Rightarrow> y)"
proof (cases ys)
  case Nil
  with assms have "xs \<noteq> []" by simp
  then obtain x xs' where "xs = x # xs'" by (cases xs) auto
  with Nil assms(1) show ?thesis
    by (auto simp add: indexOf_first nth_js_def)
next
  case (Cons y zs)
  have "nat (int (length xs) + 1) = Suc (length xs)" by simp
  with Cons assms(1) show ?thesis
    by (simp add: indexOf_first nth_js_def nth_append)
qed

lemma listener_tabs [simp]: "tabs (listener e s i ev) = tabs s"
  by (cases ev) (simp_all add: didFailLoad_def didStartNavigation_def willRedirect_def Let_def)

lemma listener_views [simp]: "views (listener e s i ev) = views s"
  by (cases ev) (simp_all add: didFailLoad_def didStartNavigation_def willRedirect_def Let_def)

lemma listener_hasEntry:
  "hasEntry (defTabConfigs s) i \<Longrightarrow>
   hasEntry (defTabConfigs (listener e s i ev)) j = hasEntry (defTabConfigs s) j"
  by (cases ev)
     (auto simp add: didFailLoad_def didStartNavigation_def willRedirect_def Let_def
        setTabConfig_hasEntry)

lemma emit_event_fields [simp]:
  "tabs (emit_event e s i ev) = tabs s" "views (emit_event e s i ev) = views s"
  by (simp_all add: emit_event_def split: option.splits)


section \<open>The calls each operation makes\<close>

lemma trace_setContentBounds:
  "trace (setContentBounds s) =
     trace s @ (case currentView s of None \<Rightarrow> [] | Some (i, v) \<Rightarrow> [SetBounds i])"
  by (simp add: setContentBounds_def split: option.splits prod.splits)

lemma trace_set_tabConfigs:
  "trace (set_tabConfigs s v) = trace s @ (if ipc s then [Reply (TabsUpdate v (tabs s))] else [])"
  by (simp add: set_tabConfigs_def Let_def)

lemma trace_destroyView:
  "trace (destroyView s i) = trace s @ (if views s i = None then [] else [WebContentsDestroy i])"
  by (auto simp add: destroyView_def split: option.splits)

lemma trace_setCurrentView:
  "i \<noteq> 0 \<Longrightarrow>
   trace (setCurrentView s (Some i)) =
     trace s @ [RemoveBrowserView (map_option fst (currentView s)),
                AddBrowserView (map_option (\<lambda>v. i) (views s i))]
       @ (if views s i = None then [] else [SetBounds i])
       @ (if ipc s then [Reply (ActiveUpdate i)] else [])"
  by (auto simp add: setCurrentView_def set_currentViewId_def Let_def trace_setContentBounds
        currentView_def currentViewId_def split: option.splits)

lemma trace_setTabConfig:
  "trace (setTabConfig s i kv) =
     trace s @ (if ipc s then [Reply (TabsUpdate (tabConfigs (setTabConfig s i kv)) (tabs s))]
                else [])"
  by (simp add: setTabConfig_def Let_def trace_set_tabConfigs tabConfigs_def)

lemma trace_mono_setTabConfig: "set (trace s) \<subseteq> set (trace (setTabConfig s i kv))"
  by (simp add: trace_setTabConfig)

lemma currentView_after_switch:
  "i \<noteq> 0 \<Longrightarrow> currentView (setCurrentView s (Some i)) = map_option (Pair i) (views s i)"
  by (simp add: currentView_def currentViewId_def setCurrentView_active)

lemma loadURL_fresh_view:
  assumes "currentView s = Some (i, w)" and "\<not> MARKS w" and "u \<noteq> []"
  shows "WebContentsLoadURL i u \<in> set (trace (loadURL e s (Some u)))"
  using assms by (simp add: loadURL_def trace_setContentBounds)

text \<open>
  A tab opened without a url loads the configured blank page, when one is configured.
\<close>

lemma newTab_loads_blank_page:
  assumes "vid \<noteq> 0" and "blankPage (options e) = Some b" and "b \<noteq> []"
  shows "WebContentsLoadURL vid b \<in> set (trace (newTab e s None a vid))"
proof -
  define s2 where "s2 = s\<lparr>tabs :=
                  (case a of
                     None \<Rightarrow> tabs s @ [vid]
                   | Some a \<Rightarrow>
                       if a = 0 then tabs s @ [vid]
                       else (let prevIndex = indexOf (tabs s) a
                             in splice_insert (tabs s) (prevIndex + 1) vid)),
                 views := (views s)(vid \<mapsto> newView)\<rparr>"
  define s4 where "s4 = call (setCurrentView s2 (Some vid)) (SetAutoResize vid)"
  have "currentView s4 = currentView (setCurrentView s2 (Some vid))"
    unfolding s4_def by (rule currentView_cong) simp_all
  then have cv: "currentView s4 = Some (vid, newView)"
    by (simp add: currentView_after_switch [OF assms(1)] s2_def)
  have "WebContentsLoadURL vid b \<in> set (trace (loadURL e s4 (Some b)))"
  proof -
    have "\<not> MARKS newView" by (simp add: newView_def)
    with cv show ?thesis using assms(3) by (rule loadURL_fresh_view)
  qed
  moreover have "newTab e s None a vid =
      setTabConfig (loadURL e s4 (Some b)) vid
        [Title \<mapsto> Str (case or_js (blankTitle (options e)) (Some ''about:blank'') of
                             None \<Rightarrow> [] | Some t \<Rightarrow> t)]"
    using assms(2) assms(3) by (simp add: newTab_def Let_def s4_def s2_def or_js_def)
  ultimately show ?thesis using trace_mono_setTabConfig by fastforce
qed


text \<open>A tab opened with a url has the listeners of its view bound.\<close>

lemma newTab_views_url:
  assumes "vid \<noteq> 0" and "u \<noteq> []"
  shows "views (newTab e s (Some u) a vid) = (views s)(vid \<mapsto> newView\<lparr>MARKS := True\<rparr>)"
proof -
  define s2 where "s2 = s\<lparr>tabs :=
                  (case a of
                     None \<Rightarrow> tabs s @ [vid]
                   | Some a \<Rightarrow>
                       if a = 0 then tabs s @ [vid]
                       else (let prevIndex = indexOf (tabs s) a
                             in splice_insert (tabs s) (prevIndex + 1) vid)),
                 views := (views s)(vid \<mapsto> newView)\<rparr>"
  define s4 where "s4 = call (setCurrentView s2 (Some vid)) (SetAutoResize vid)"
  have "currentView s4 = currentView (setCurrentView s2 (Some vid))"
    unfolding s4_def by (rule currentView_cong) simp_all
  then have cv: "currentView s4 = Some (vid, newView)"
    by (simp add: currentView_after_switch [OF assms(1)] s2_def)
  have v4: "views s4 = (views s)(vid \<mapsto> newView)"
    by (simp add: s4_def s2_def)
  have "views (loadURL e s4 (Some u)) = (views s)(vid \<mapsto> newView\<lparr>MARKS := True\<rparr>)"
    using cv assms(2) by (simp add: loadURL_def v4 newView_def)
  moreover have "newTab e s (Some u) a vid =
      setTabConfig (loadURL e s4 (Some u)) vid
        [Title \<mapsto> Str (case or_js (blankTitle (options e)) (Some ''about:blank'') of
                             None \<Rightarrow> [] | Some t \<Rightarrow> t)]"
    using assms(2) by (simp add: newTab_def Let_def s4_def s2_def or_js_def)
  ultimately show ?thesis by simp
qed

lemma emit_event_bound:
  "views s i = Some w \<Longrightarrow> MARKS w \<Longrightarrow> emit_event e s i ev = listener e s i ev"
  by (simp add: emit_event_def)


section \<open>The example shells\<close>

lemma demo_env_options:
  "or_js None (blankPage (options demo_env)) = None"
  "or_js (or_js (startPage (options demo_env)) (Some [])) (blankPage (options demo_env)) = None"
  by (simp_all add: demo_env_def or_js_def)

lemma demo_three_fields:
  "tabs demo_three = [1, 2, 3]" "currentViewId demo_three = Some 2"
  "ipc demo_three" "views demo_three 2 \<noteq> None" "views demo_three 3 \<noteq> None"
  by (simp_all add: demo_three_def runs_def currentViewId_def switchTab_fields
        controlReady_fields newTab_tabs newTab_active newTab_views_blank
        controlReady_views_blank demo_env_options init_def)

lemma demo_three_view: "views demo_three 2 = Some newView"
  by (simp add: demo_three_def runs_def switchTab_fields newTab_views_blank
        controlReady_views_blank demo_env_options)

lemma demo_one_fields:
  "tabs demo_one = [1]" "currentViewId demo_one = Some 1" "ipc demo_one"
  "views demo_one 1 = Some newView"
  by (simp_all add: demo_one_def runs_def currentViewId_def controlReady_fields
        controlReady_views_blank demo_env_options init_def)

lemma demo_env_builtin:
  "builtin demo_env n = ''file:///app/main/renderer/'' @ n @ ''.html''"
  by (simp add: builtin_def demo_env_def)

lemma demo_fail_href_includes:
  "startsWith demo_fail_href (builtin demo_env ''web_fail_code'')"
  "includes_js demo_fail_href (builtin demo_env ''settings'')"
  by (simp_all add: demo_fail_href_def demo_env_builtin)

lemma demo_fail_href_rewrite: "rewrite demo_env demo_fail_href = ''px://settings''"
  using demo_fail_href_includes(2)
  by (simp add: rewrite_def Let_def demo_env_builtin) (simp add: demo_env_def demo_fail_href_def)

lemma demo_virtualClean: "virtualClean demo_env"
  by (simp add: virtualClean_def builtinPages_def demo_env_builtin)

lemma demo_about_match:
  "firstMatch demo_env (builtin demo_env ''about'') = Some (''about'', ''px://about'')"
  by (simp add: firstMatch_def builtinPages_def demo_env_builtin)


lemma demo_browsing_view: "views demo_browsing 2 = Some (newView\<lparr>MARKS := True\<rparr>)"
  by (simp add: demo_browsing_def runs_def newTab_views_url)

lemma demo_credits_fail_rewrite:
  "rewrite demo_env demo_credits_fail_href = ''px://network-error''"
  by (simp add: rewrite_def Let_def demo_env_builtin demo_credits_fail_href_def)
     (simp add: demo_env_def)

text \<open>
  The error page is what the \<^verbatim>\<open>did-fail-load\<close> listener loads when the settings page
  fails in the second tab.
\<close>

lemma demo_didFailLoad_loads:
  "emit_event demo_env demo_browsing 2
     (DidFailLoad (- 3) ''ERR_ABORTED'' (builtin demo_env ''settings'') True)
   = setTabConfig (call demo_browsing (WebContentsLoadURL 2 demo_fail_href)) 2
       [IsLoading \<mapsto> Bool False]"
proof -
  have "show_int (- 3) = ''-3''" by code_simp
  then show ?thesis
    by (simp add: emit_event_bound [OF demo_browsing_view] didFailLoad_def demo_fail_href_def)
qed

lemma demo_didFailLoad_trace:
  "WebContentsLoadURL 2 demo_fail_href
     \<in> set (trace (emit_event demo_env demo_browsing 2
                (DidFailLoad (- 3) ''ERR_ABORTED'' (builtin demo_env ''settings'') True)))"
  unfolding demo_didFailLoad_loads
  using trace_mono_setTabConfig
          [of "call demo_browsing (WebContentsLoadURL 2 demo_fail_href)" 2
              "[IsLoading \<mapsto> Bool False]"]
  by auto


section \<open>The tab sequence and the config store\<close>

lemma readSync_newTab: "readSync s \<Longrightarrow> readSync (newTab e s url a vid)"
  by (auto simp add: readSync_def tabConfigs_def newTab_set_tabs newTab_entry)

lemma readSync_closeTab: "readSync s \<Longrightarrow> readSync (closeTab e s i vid)"
  unfolding readSync_def tabConfigs_def closeTab_tabs_pre closeTab_entry
  by (auto simp add: filter_empty_conv)

lemma readSync_switchTab: "readSync s \<Longrightarrow> readSync (switchTab s i)"
  by (simp add: readSync_def tabConfigs_def switchTab_def Let_def split: option.splits prod.splits)

lemma readSync_controlReady: "readSync s \<Longrightarrow> readSync (controlReady e s vid)"
proof -
  assume "readSync s"
  then have "readSync (s\<lparr>ipc := True\<rparr>)" by (simp add: readSync_def tabConfigs_def)
  then have "readSync (newTab e (s\<lparr>ipc := True\<rparr>) (or_js (startPage (options e)) (Some [])) None vid)"
    by (rule readSync_newTab)
  then show ?thesis by (simp add: controlReady_def readSync_def tabConfigs_def)
qed

lemma readSync_run: "readSync s \<Longrightarrow> readSync (run e s c)"
  by (cases c) (simp_all add: readSync_newTab readSync_closeTab readSync_switchTab readSync_controlReady)

lemma readSync_runs: "readSync s \<Longrightarrow> readSync (runs e s cs)"
  unfolding runs_def by (induction cs arbitrary: s) (simp_all add: readSync_run)

lemma readSync_init: "readSync init"
  by (simp add: readSync_def init_def hasEntry_def tabConfigs_def getProp_def)

text \<open>
  The close-tab handler does not delete the key of the closed id: the key stays in the
  object and holds \<^verbatim>\<open>undefined\<close>, which reads as no entry.
\<close>

lemma closeTab_key_remains:
  "i \<noteq> vid \<Longrightarrow> tabConfigs (closeTab e s i vid) i = Some None
     \<and> \<not> hasEntry (tabConfigs (closeTab e s i vid)) i"
  by (simp add: closeTab_decompose Let_def tabConfigs_def newTab_other_keys hasEntry_def
        getProp_def)

lemma demo_closed_fields:
  "tabs demo_closed = [1]" "tabConfigs demo_closed 2 = Some None"
  "hasEntry (tabConfigs demo_closed) 1"
proof -
  define s0 where "s0 = newTab demo_env (controlReady demo_env init 1) None None 2"
  have d: "demo_closed = closeTab demo_env s0 2 3"
    by (simp add: demo_closed_def runs_def s0_def)
  have t: "tabs s0 = [1, 2]"
    by (simp add: s0_def newTab_tabs controlReady_fields init_def)
  show "tabs demo_closed = [1]"
    by (simp add: d closeTab_tabs_pre t)
  show "tabConfigs demo_closed 2 = Some None"
    unfolding d using closeTab_key_remains [of 2 3 demo_env s0] by simp
  have "hasEntry (defTabConfigs (controlReady demo_env init 1)) 1"
    by (simp add: controlReady_def newTab_entry)
  then have "hasEntry (defTabConfigs s0) 1"
    by (simp add: s0_def newTab_entry)
  then show "hasEntry (tabConfigs demo_closed) 1"
    by (simp add: d tabConfigs_def closeTab_entry t)
qed

text \<open>
  Claim C2, amended. Starting from the state the constructor leaves, after every sequence
  of control-ready, new-tab, switch-tab and close-tab commands the ids in the tab sequence
  are exactly the ids under which the config store holds a tab. Every id of the sequence
  is a key of the store; a key of the store that is not in the sequence holds
  \<^verbatim>\<open>undefined\<close>: close-tab sets the key of the closed id to \<^verbatim>\<open>undefined\<close> and never
  deletes it.
\<close>

theorem tabs_configs_synchronized:
  "set (tabs (runs e init cs)) = {i. hasEntry (tabConfigs (runs e init cs)) i}
   \<and> set (tabs (runs e init cs)) \<subseteq> dom (tabConfigs (runs e init cs))
   \<and> (\<forall>i \<in> dom (tabConfigs (runs e init cs)).
          i \<notin> set (tabs (runs e init cs)) \<longrightarrow> tabConfigs (runs e init cs) i = Some None)"
proof -
  define s where "s = runs e init cs"
  have rs: "set (tabs s) = {i. hasEntry (tabConfigs s) i}"
    using readSync_runs [OF readSync_init, of e cs] by (simp add: readSync_def s_def)
  have sub: "set (tabs s) \<subseteq> dom (tabConfigs s)"
  proof
    fix i
    assume "i \<in> set (tabs s)"
    then have "hasEntry (tabConfigs s) i" using rs by simp
    then show "i \<in> dom (tabConfigs s)"
      by (auto simp add: hasEntry_def getProp_def split: option.splits)
  qed
  have und: "tabConfigs s i = Some None" if "i \<in> dom (tabConfigs s)" "i \<notin> set (tabs s)" for i
  proof -
    have "\<not> hasEntry (tabConfigs s) i" using that(2) rs by simp
    then show ?thesis
      using that(1) by (auto simp add: hasEntry_def getProp_def split: option.splits)
  qed
  show ?thesis using rs sub und unfolding s_def by blast
qed

text \<open>
  Claim C2 as stated fails by keys: after the second of two tabs is closed the sequence is
  1, and 2 is still a key of the store.
\<close>

theorem tabs_configs_synchronized_counterexample:
  "tabs demo_closed = [1] \<and> tabConfigs demo_closed 2 = Some None
   \<and> 2 \<in> dom (tabConfigs demo_closed) \<and> 2 \<notin> set (tabs demo_closed)
   \<and> \<not> keySync demo_closed"
proof -
  have a: "2 \<in> dom (tabConfigs demo_closed)" by (simp add: dom_def demo_closed_fields)
  have b: "2 \<notin> set (tabs demo_closed)" by (simp add: demo_closed_fields)
  have "\<not> keySync demo_closed" unfolding keySync_def using a b by blast
  then show ?thesis using a b by (simp add: demo_closed_fields)
qed

text \<open>
  The same shell: its one tab is the one id with a tab in the store, and the key 2 holds
  \<^verbatim>\<open>undefined\<close>.
\<close>

theorem tabs_configs_synchronized_witness:
  "set (tabs demo_closed) = {i. hasEntry (tabConfigs demo_closed) i}
   \<and> 2 \<in> dom (tabConfigs demo_closed) \<and> 2 \<notin> set (tabs demo_closed)
   \<and> tabConfigs demo_closed 2 = Some None
   \<and> hasEntry (tabConfigs demo_closed) 1 \<and> tabs demo_closed = [1]"
proof -
  have a: "2 \<in> dom (tabConfigs demo_closed)" by (simp add: dom_def demo_closed_fields)
  have b: "2 \<notin> set (tabs demo_closed)" by (simp add: demo_closed_fields)
  note th = tabs_configs_synchronized
              [of demo_env "[ControlReady 1, NewTab None 2, CloseTab 2 3]",
               folded demo_closed_def]
  have c: "set (tabs demo_closed) = {i. hasEntry (tabConfigs demo_closed) i}"
    using th by blast
  have d: "tabConfigs demo_closed 2 = Some None" using th a b by blast
  show ?thesis using a b c d demo_closed_fields(1) demo_closed_fields(3) by blast
qed

lemma viewsOfTabs_iff: "viewsOfTabs s \<longleftrightarrow> (\<forall>j. j \<notin> set (tabs s) \<longrightarrow> views s j = None)"
  unfolding viewsOfTabs_def by (auto simp add: dom_def)

lemma emit_event_sync:
  assumes "readSync s" and "viewsOfTabs s"
  shows "readSync (emit_event e s i ev)"
proof (cases "views s i")
  case None
  then show ?thesis using assms(1) by (simp add: emit_event_def)
next
  case (Some v)
  then have "i \<in> set (tabs s)" using assms(2) by (auto simp add: viewsOfTabs_def)
  then have "hasEntry (defTabConfigs s) i" using assms(1) by (simp add: readSync_def tabConfigs_def)
  then show ?thesis
    using assms(1) Some by (simp add: emit_event_def readSync_def tabConfigs_def listener_hasEntry)
qed

lemma viewsOfTabs_newTab: "viewsOfTabs s \<Longrightarrow> viewsOfTabs (newTab e s url a vid)"
  unfolding viewsOfTabs_iff by (simp add: newTab_views newTab_set_tabs)

lemma viewsOfTabs_closeTab: "viewsOfTabs s \<Longrightarrow> viewsOfTabs (closeTab e s i vid)"
  unfolding viewsOfTabs_iff closeTab_views closeTab_tabs_pre
  by (cases "filter (\<lambda>v. v \<noteq> i) (tabs s) = []") (auto simp add: filter_empty_conv)

lemma viewsOfTabs_switchTab: "viewsOfTabs s \<Longrightarrow> viewsOfTabs (switchTab s i)"
  by (simp add: viewsOfTabs_def switchTab_def Let_def split: option.splits prod.splits)

lemma viewsOfTabs_controlReady: "viewsOfTabs s \<Longrightarrow> viewsOfTabs (controlReady e s vid)"
proof -
  assume "viewsOfTabs s"
  then have "viewsOfTabs (s\<lparr>ipc := True\<rparr>)" by (simp add: viewsOfTabs_def)
  then have "viewsOfTabs (newTab e (s\<lparr>ipc := True\<rparr>) (or_js (startPage (options e)) (Some [])) None vid)"
    by (rule viewsOfTabs_newTab)
  then show ?thesis by (simp add: controlReady_def viewsOfTabs_def)
qed

lemma viewsOfTabs_run: "viewsOfTabs s \<Longrightarrow> viewsOfTabs (run e s c)"
  by (cases c)
     (simp_all add: viewsOfTabs_newTab viewsOfTabs_closeTab viewsOfTabs_switchTab
        viewsOfTabs_controlReady)

lemma readSync_steps:
  "readSync s \<Longrightarrow> viewsOfTabs s \<Longrightarrow> readSync (steps e s as) \<and> viewsOfTabs (steps e s as)"
  unfolding steps_def
proof (induction as arbitrary: s)
  case Nil
  then show ?case by simp
next
  case (Cons a as)
  have "readSync (step e s a) \<and> viewsOfTabs (step e s a)"
  proof (cases a)
    case (Command c)
    then show ?thesis using Cons.prems by (simp add: readSync_run viewsOfTabs_run)
  next
    case (Event i ev)
    then show ?thesis using Cons.prems by (simp add: emit_event_sync viewsOfTabs_def)
  qed
  then show ?case using Cons.IH by simp
qed

text \<open>
  The tab sequence and the config store also stay synchronized when the events of the views
  arrive between the commands.
\<close>

lemma tabs_configs_synchronized_with_events:
  "set (tabs (steps e init as)) = {i. hasEntry (tabConfigs (steps e init as)) i}"
proof -
  have "viewsOfTabs init" by (simp add: viewsOfTabs_def init_def)
  then show ?thesis using readSync_steps [OF readSync_init, of e as] by (simp add: readSync_def)
qed


section \<open>Well-formed shells\<close>

lemma wellFormed_cong:
  "tabs s' = tabs s \<Longrightarrow> views s' = views s \<Longrightarrow> defCurrentViewId s' = defCurrentViewId s
   \<Longrightarrow> wellFormed s' = wellFormed s"
  by (simp add: wellFormed_def currentViewId_def split: option.splits)

lemma wellFormed_newTab:
  assumes "wellFormed s" and "vid \<noteq> 0" and "vid \<notin> set (tabs s)"
  shows "wellFormed (newTab e s url a vid)"
proof -
  have d: "distinct (tabs (newTab e s url a vid))"
    using assms by (auto simp add: wellFormed_def newTab_tabs distinct_splice_insert split: option.splits)
  have z: "0 \<notin> set (tabs (newTab e s url a vid))"
    using assms by (simp add: wellFormed_def newTab_set_tabs)
  have c: "currentViewId (newTab e s url a vid) = Some vid"
    using assms(2) by (simp add: currentViewId_def newTab_active)
  have v: "list_all (\<lambda>i. views (newTab e s url a vid) i \<noteq> None) (tabs (newTab e s url a vid))"
    using assms(1) unfolding list_all_iff newTab_set_tabs wellFormed_def
    by (auto simp add: newTab_views)
  show ?thesis
    unfolding wellFormed_def using d z c v by (simp add: newTab_set_tabs)
qed

lemma wellFormed_switchTab:
  assumes "wellFormed s" and "i \<in> set (tabs s)"
  shows "wellFormed (switchTab s i)"
proof -
  have nz: "i \<noteq> 0"
  proof
    assume "i = 0"
    then show False using assms by (simp add: wellFormed_def)
  qed
  have f: "tabs (switchTab s i) = tabs s" "views (switchTab s i) = views s"
    "currentViewId (switchTab s i) = Some i"
    using nz by (simp_all add: switchTab_def Let_def currentViewId_def setCurrentView_active
        split: option.splits prod.splits)
  show ?thesis using assms by (simp add: wellFormed_def f)
qed

lemma wellFormed_closeTab:
  assumes wf: "wellFormed s" and mem: "i \<in> set (tabs s)"
    and nz: "vid \<noteq> 0" and fresh: "vid \<notin> set (tabs s)"
  shows "wellFormed (closeTab e s i vid)"
proof -
  from mem obtain xs ys where sp: "tabs s = xs @ i # ys"
    by (meson split_list)
  have dis: "i \<notin> set xs" "i \<notin> set ys" "distinct (xs @ ys)"
    using wf by (auto simp add: wellFormed_def sp)
  have flt: "filter (\<lambda>v. v \<noteq> i) (tabs s) = xs @ ys"
  proof -
    have "filter (\<lambda>v. v \<noteq> i) zs = zs" if "i \<notin> set zs" for zs
      using that by (induction zs) auto
    then show ?thesis using dis by (simp add: sp)
  qed
  define s1 where "s1 = (if Some i = currentViewId s then
                  setCurrentView s (nth_js (tabs s)
                    (if indexOf (tabs s) i = int (length (tabs s)) - 1 then 0
                     else indexOf (tabs s) i + 1))
                else s)"
  define s4 where "s4 = destroyView
                 (set_tabConfigs (s1\<lparr>tabs := xs @ ys\<rparr>) ((tabConfigs s)(i \<mapsto> None))) i"
  have eq: "closeTab e s i vid = (if xs @ ys = [] then newTab e s4 None None vid else s4)"
    by (simp add: closeTab_decompose s1_def s4_def flt Let_def)
  have v1: "views s1 = views s" "tabs s1 = tabs s"
    by (simp_all add: s1_def)
  have f4: "tabs s4 = xs @ ys" "views s4 = (views s)(i := None)"
    "currentViewId s4 = currentViewId s1"
    by (simp_all add: s4_def v1 currentViewId_def)
  have c1: "\<exists>a. currentViewId s1 = Some a \<and> a \<in> set (xs @ ys)" if ne: "xs @ ys \<noteq> []"
  proof (cases "Some i = currentViewId s")
    case True
    define n where "n = (case ys of [] \<Rightarrow> hd xs | y # zs \<Rightarrow> y)"
    have nx: "nth_js (tabs s)
           (if indexOf (tabs s) i = int (length (tabs s)) - 1 then 0
            else indexOf (tabs s) i + 1) = Some n"
      unfolding sp n_def using dis(1) ne by (rule closeTab_next)
    have nin: "n \<in> set (xs @ ys)"
      using ne by (cases ys) (auto simp add: n_def)
    have "n \<noteq> 0"
    proof
      assume "n = 0"
      then show False using wf nin by (simp add: wellFormed_def sp)
    qed
    then have "currentViewId s1 = Some n"
      using True nx by (simp add: s1_def setCurrentView_currentViewId)
    then show ?thesis using nin by blast
  next
    case False
    then obtain a where a: "currentViewId s = Some a" "a \<in> set (tabs s)"
      using wf mem by (cases "currentViewId s") (auto simp add: wellFormed_def)
    then have "a \<noteq> i" using False by auto
    then have "a \<in> set (xs @ ys)" using a(2) by (auto simp add: sp)
    then show ?thesis using False a(1) by (simp add: s1_def)
  qed
  have wf4: "wellFormed s4" if ne: "xs @ ys \<noteq> []"
  proof -
    have "0 \<notin> set (xs @ ys)" using wf by (auto simp add: wellFormed_def sp)
    moreover have "list_all (\<lambda>j. views s4 j \<noteq> None) (xs @ ys)"
      using wf dis unfolding list_all_iff wellFormed_def sp f4 by auto
    ultimately show ?thesis
      using c1 [OF ne] dis(3) unfolding wellFormed_def f4 by auto
  qed
  show ?thesis
  proof (cases "xs @ ys = []")
    case True
    have a: "tabs (closeTab e s i vid) = [vid]"
      using True by (simp add: eq newTab_tabs f4)
    have b: "currentViewId (closeTab e s i vid) = Some vid"
      using True nz by (simp add: eq currentViewId_def newTab_active)
    have c: "views (closeTab e s i vid) vid \<noteq> None"
      using True by (simp add: eq newTab_views)
    show ?thesis unfolding wellFormed_def a b using nz c by simp
  next
    case False
    then have "closeTab e s i vid = s4" unfolding eq by (simp only: if_False)
    then show ?thesis using wf4 [OF False] by simp
  qed
qed

lemma wellFormed_controlReady:
  assumes "wellFormed s" and "vid \<noteq> 0" and "vid \<notin> set (tabs s)"
  shows "wellFormed (controlReady e s vid)"
proof -
  have "wellFormed (s\<lparr>ipc := True\<rparr>)"
    using assms(1) by (simp add: wellFormed_cong [of "s\<lparr>ipc := True\<rparr>" s])
  then have "wellFormed (newTab e (s\<lparr>ipc := True\<rparr>) (or_js (startPage (options e)) (Some [])) None vid)"
    using assms(2) assms(3) by (intro wellFormed_newTab) simp_all
  then show ?thesis
    unfolding controlReady_def by (subst wellFormed_cong) simp_all
qed

lemma wellFormed_run: "wellFormed s \<Longrightarrow> allowed s c \<Longrightarrow> wellFormed (run e s c)"
  by (cases c)
     (simp_all add: wellFormed_controlReady wellFormed_newTab wellFormed_switchTab
        wellFormed_closeTab)

lemma wellFormed_runs:
  "wellFormed s \<Longrightarrow> allowedRun e s cs \<Longrightarrow> wellFormed (runs e s cs)"
  unfolding runs_def by (induction cs arbitrary: s) (simp_all add: wellFormed_run)

lemma wellFormed_init: "wellFormed init"
  by (simp add: wellFormed_def init_def currentViewId_def)

lemma wellFormed_active_in_tabs:
  "wellFormed s \<Longrightarrow> currentViewId s = Some a \<Longrightarrow> a \<in> set (tabs s) \<and> a \<noteq> 0 \<and> views s a \<noteq> None"
proof -
  assume wf: "wellFormed s" and a: "currentViewId s = Some a"
  have m: "a \<in> set (tabs s)" using wf a by (simp add: wellFormed_def)
  have "a \<noteq> 0"
  proof
    assume "a = 0"
    then show False using wf m by (simp add: wellFormed_def)
  qed
  moreover have "views s a \<noteq> None"
    using wf m by (simp add: wellFormed_def list_all_iff)
  ultimately show ?thesis using m by blast
qed

lemma wellFormed_has_active:
  "wellFormed s \<Longrightarrow> tabs s \<noteq> [] \<Longrightarrow> \<exists>a. currentViewId s = Some a"
  by (cases "currentViewId s") (simp_all add: wellFormed_def)

text \<open>The example shells are reached by allowed commands, so they are well-formed.\<close>

lemma demo_three_allowed:
  "allowedRun demo_env init [ControlReady 1, NewTab None 2, NewTab None 3, SwitchTab 2]"
  by (simp add: controlReady_fields newTab_tabs init_def)

lemma demo_three_wellFormed: "wellFormed demo_three"
  unfolding demo_three_def using wellFormed_init demo_three_allowed by (rule wellFormed_runs)

lemma demo_one_wellFormed: "wellFormed demo_one"
  unfolding demo_one_def
  by (rule wellFormed_runs [OF wellFormed_init]) (simp add: init_def)


section \<open>Closing a tab\<close>

text \<open>
  Claim C1. Closing the active tab \<open>i\<close> while another tab exists makes the tab that
  follows \<open>i\<close> in the sequence active, or the first tab when \<open>i\<close> is last. The switch
  comes first: the result is the removal from the sequence, the store update and the
  destruction of the view applied to the switched state, in which \<open>i\<close> still has its
  place, its entry and its view; the active-update is sent before the tabs-update that
  reports the removal and before the view is destroyed.
\<close>

theorem closeTab_active_switches_to_next:
  assumes "currentViewId s = Some i"
    and "tabs s = xs @ i # ys"
    and "i \<notin> set xs" and "i \<notin> set ys"
    and "xs @ ys \<noteq> []"
    and "n = (case ys of [] \<Rightarrow> hd xs | y # zs \<Rightarrow> y)"
    and "n \<noteq> 0"
  shows "currentViewId (closeTab e s i vid) = Some n
       \<and> tabs (closeTab e s i vid) = xs @ ys
       \<and> closeTab e s i vid =
           destroyView
             (set_tabConfigs ((setCurrentView s (Some n))\<lparr>tabs := xs @ ys\<rparr>)
                ((tabConfigs s)(i \<mapsto> None))) i
       \<and> tabs (setCurrentView s (Some n)) = tabs s
       \<and> tabConfigs (setCurrentView s (Some n)) = tabConfigs s
       \<and> views (setCurrentView s (Some n)) = views s
       \<and> trace (closeTab e s i vid) =
           trace s @ [RemoveBrowserView (map_option fst (currentView s)),
                      AddBrowserView (map_option (\<lambda>v. n) (views s n))]
             @ (if views s n = None then [] else [SetBounds n])
             @ (if ipc s then [Reply (ActiveUpdate n)] else [])
             @ (if ipc s then [Reply (TabsUpdate ((tabConfigs s)(i \<mapsto> None)) (xs @ ys))] else [])
             @ (if views s i = None then [] else [WebContentsDestroy i])"
proof -
  have nx: "nth_js (tabs s)
           (if indexOf (tabs s) i = int (length (tabs s)) - 1 then 0
            else indexOf (tabs s) i + 1) = Some n"
    unfolding assms(2) assms(6) using assms(3) assms(5) by (rule closeTab_next)
  have "filter (\<lambda>v. v \<noteq> i) zs = zs" if "i \<notin> set zs" for zs
    using that by (induction zs) auto
  then have flt: "filter (\<lambda>v. v \<noteq> i) (tabs s) = xs @ ys"
    using assms(3) assms(4) by (simp add: assms(2))
  have eq: "closeTab e s i vid =
           destroyView
             (set_tabConfigs ((setCurrentView s (Some n))\<lparr>tabs := xs @ ys\<rparr>)
                ((tabConfigs s)(i \<mapsto> None))) i"
    using assms(1) assms(5) nx flt by (auto simp add: closeTab_def Let_def tabConfigs_def)
  have act: "currentViewId (closeTab e s i vid) = Some n"
    using assms(7) by (simp add: eq currentViewId_def setCurrentView_active)
  have tr: "trace (closeTab e s i vid) =
           trace s @ [RemoveBrowserView (map_option fst (currentView s)),
                      AddBrowserView (map_option (\<lambda>v. n) (views s n))]
             @ (if views s n = None then [] else [SetBounds n])
             @ (if ipc s then [Reply (ActiveUpdate n)] else [])
             @ (if ipc s then [Reply (TabsUpdate ((tabConfigs s)(i \<mapsto> None)) (xs @ ys))] else [])
             @ (if views s i = None then [] else [WebContentsDestroy i])"
    unfolding eq trace_destroyView trace_set_tabConfigs
    using trace_setCurrentView [OF assms(7), of s] by simp
  show ?thesis
    using act tr eq by (simp add: tabConfigs_def)
qed

text \<open>
  The scenario of the claim: tabs 1, 2, 3 with 2 active; closing 2 leaves 3 active and the
  sequence 1, 3.
\<close>

theorem closeTab_active_switches_to_next_witness:
  "currentViewId demo_three = Some 2 \<and> tabs demo_three = [1, 2, 3]
   \<and> currentViewId (closeTab demo_env demo_three 2 4) = Some 3
   \<and> tabs (closeTab demo_env demo_three 2 4) = [1, 3]"
proof -
  have a: "currentViewId demo_three = Some 2" by (rule demo_three_fields)
  have b: "tabs demo_three = [1] @ 2 # [3]" by (simp add: demo_three_fields)
  have c: "(2::nat) \<notin> set [1]" and d: "(2::nat) \<notin> set [3]"
    and e: "[1::nat] @ [3] \<noteq> []" and nz: "(3::nat) \<noteq> 0" by simp_all
  have n: "(3::nat) = (case [3] of [] \<Rightarrow> hd [1] | y # zs \<Rightarrow> y)" by simp
  have th: "currentViewId (closeTab demo_env demo_three 2 4) = Some 3
      \<and> tabs (closeTab demo_env demo_three 2 4) = [1] @ [3]"
    using closeTab_active_switches_to_next [OF a b c d e n nz, of demo_env 4] by blast
  show ?thesis using a th by (simp add: demo_three_fields)
qed

text \<open>
  Claim C8. Closing a tab that is not the active one leaves the active id as it is, in a
  shell whose active tab is in the tab sequence; the command changes the sequence, the
  config entry and the view of the closed tab and nothing else of the shell's state.
  Every well-formed shell has its active tab in the sequence, and the allowed commands
  lead from the constructor's state to well-formed shells only.
\<close>

theorem closeTab_inactive_keeps_active:
  assumes "currentViewId s = Some a" and "a \<in> set (tabs s)" and "i \<noteq> a"
  shows "currentViewId (closeTab e s i vid) = Some a
       \<and> tabs (closeTab e s i vid) = filter (\<lambda>v. v \<noteq> i) (tabs s)
       \<and> tabConfigs (closeTab e s i vid) = (tabConfigs s)(i \<mapsto> None)
       \<and> views (closeTab e s i vid) = (views s)(i := None)
       \<and> ipc (closeTab e s i vid) = ipc s"
proof -
  have "a \<in> set (filter (\<lambda>v. v \<noteq> i) (tabs s))" using assms(2) assms(3) by simp
  then have ne: "filter (\<lambda>v. v \<noteq> i) (tabs s) \<noteq> []" by (metis empty_iff empty_set)
  have "Some i \<noteq> currentViewId s" using assms(1) assms(3) by simp
  then have eq: "closeTab e s i vid =
      destroyView (set_tabConfigs (s\<lparr>tabs := filter (\<lambda>v. v \<noteq> i) (tabs s)\<rparr>)
                    ((tabConfigs s)(i \<mapsto> None))) i"
    using ne by (simp add: closeTab_decompose Let_def)
  show ?thesis using assms(1) by (simp add: eq currentViewId_def tabConfigs_def)
qed

text \<open>With tabs 1, 2, 3 and 2 active, closing 1 leaves 2 active and the sequence 2, 3.\<close>

theorem closeTab_inactive_keeps_active_witness:
  "currentViewId demo_three = Some 2 \<and> 2 \<in> set (tabs demo_three) \<and> (1::nat) \<noteq> 2
   \<and> currentViewId (closeTab demo_env demo_three 1 4) = Some 2
   \<and> tabs (closeTab demo_env demo_three 1 4) = [2, 3]"
proof -
  have a: "currentViewId demo_three = Some 2" by (rule demo_three_fields)
  have b: "2 \<in> set (tabs demo_three)" by (simp add: demo_three_fields)
  have c: "(1::nat) \<noteq> 2" by simp
  have "currentViewId (closeTab demo_env demo_three 1 4) = Some 2
      \<and> tabs (closeTab demo_env demo_three 1 4) = filter (\<lambda>v. v \<noteq> 1) (tabs demo_three)"
    using closeTab_inactive_keeps_active [OF a b c, of demo_env 4] by blast
  then show ?thesis using a b by (simp add: demo_three_fields)
qed

text \<open>
  Claim C3. After a close-tab command the tab sequence is never empty: when the removal
  empties it, the same command goes on to \<^verbatim>\<open>this.newTab()\<close>, called without a url, so
  that the blank page is loaded; the new tab is then the only tab, has a view and a config
  entry, and is the active tab.
\<close>

theorem closeTab_leaves_a_tab:
  "tabs (closeTab e s i vid) \<noteq> []
   \<and> (filter (\<lambda>v. v \<noteq> i) (tabs s) = [] \<longrightarrow>
        (\<exists>s4. tabs s4 = [] \<and> closeTab e s i vid = newTab e s4 None None vid)
        \<and> tabs (closeTab e s i vid) = [vid]
        \<and> views (closeTab e s i vid) vid \<noteq> None
        \<and> hasEntry (tabConfigs (closeTab e s i vid)) vid
        \<and> (vid \<noteq> 0 \<longrightarrow> currentViewId (closeTab e s i vid) = Some vid))"
proof -
  have ne: "tabs (closeTab e s i vid) \<noteq> []"
    by (simp add: closeTab_tabs_pre)
  have rest: "(\<exists>s4. tabs s4 = [] \<and> closeTab e s i vid = newTab e s4 None None vid)
        \<and> tabs (closeTab e s i vid) = [vid]
        \<and> views (closeTab e s i vid) vid \<noteq> None
        \<and> hasEntry (tabConfigs (closeTab e s i vid)) vid
        \<and> (vid \<noteq> 0 \<longrightarrow> currentViewId (closeTab e s i vid) = Some vid)"
    if emp: "filter (\<lambda>v. v \<noteq> i) (tabs s) = []"
  proof -
    define s1 where "s1 = (if Some i = currentViewId s then
                  setCurrentView s (nth_js (tabs s)
                    (if indexOf (tabs s) i = int (length (tabs s)) - 1 then 0
                     else indexOf (tabs s) i + 1))
                else s)"
    define s4 where "s4 = destroyView
                 (set_tabConfigs (s1\<lparr>tabs := filter (\<lambda>v. v \<noteq> i) (tabs s)\<rparr>)
                    ((tabConfigs s)(i \<mapsto> None))) i"
    have eq: "closeTab e s i vid = newTab e s4 None None vid"
      using emp by (simp add: closeTab_decompose s1_def s4_def Let_def)
    have t4: "tabs s4 = []" using emp by (simp add: s4_def)
    have a: "\<exists>s4. tabs s4 = [] \<and> closeTab e s i vid = newTab e s4 None None vid"
      using eq t4 by blast
    have b: "tabs (closeTab e s i vid) = [vid]" by (simp add: eq newTab_tabs t4)
    have c: "views (closeTab e s i vid) vid \<noteq> None" by (simp add: eq newTab_views)
    have d: "hasEntry (tabConfigs (closeTab e s i vid)) vid"
      by (simp add: eq tabConfigs_def newTab_entry)
    have f: "vid \<noteq> 0 \<longrightarrow> currentViewId (closeTab e s i vid) = Some vid"
      by (simp add: eq currentViewId_def newTab_active)
    show ?thesis using a b c d f by blast
  qed
  show ?thesis using ne rest by blast
qed

text \<open>Closing the only tab 1 leaves the new tab 2, which is active.\<close>

theorem closeTab_leaves_a_tab_witness:
  "filter (\<lambda>v. v \<noteq> 1) (tabs demo_one) = []
   \<and> tabs (closeTab demo_env demo_one 1 2) = [2]
   \<and> currentViewId (closeTab demo_env demo_one 1 2) = Some 2"
  using closeTab_leaves_a_tab [of demo_env demo_one 1 2]
  by (simp add: demo_one_fields)

text \<open>
  Claim C10. Closing the active tab when it is the only tab: the replacement index wraps
  to 0 and names the tab being closed. The shell switches to that tab, sends an
  active-update for it, removes it and destroys its view, so that the active id names a
  view that is gone, until \<^verbatim>\<open>newTab\<close> makes the new blank tab active.
\<close>

theorem closeTab_only_tab_reactivates_closed:
  assumes "tabs s = [i]" and "currentViewId s = Some i" and "i \<noteq> 0"
    and "views s i = Some w" and "ipc s"
  shows "nth_js (tabs s) (if indexOf (tabs s) i = int (length (tabs s)) - 1 then 0
                          else indexOf (tabs s) i + 1) = Some i
       \<and> (\<exists>s4. closeTab e s i vid = newTab e s4 None None vid
              \<and> currentViewId s4 = Some i \<and> views s4 i = None \<and> tabs s4 = []
              \<and> trace s4 = trace s @
                  [RemoveBrowserView (Some i), AddBrowserView (Some i), SetBounds i,
                   Reply (ActiveUpdate i),
                   Reply (TabsUpdate ((tabConfigs s)(i \<mapsto> None)) []),
                   WebContentsDestroy i])
       \<and> tabs (closeTab e s i vid) = [vid]
       \<and> (vid \<noteq> 0 \<longrightarrow> currentViewId (closeTab e s i vid) = Some vid)"
proof -
  have nx: "nth_js (tabs s) (if indexOf (tabs s) i = int (length (tabs s)) - 1 then 0
                          else indexOf (tabs s) i + 1) = Some i"
    by (simp add: assms(1) nth_js_def)
  define s4 where "s4 = destroyView
                 (set_tabConfigs ((setCurrentView s (Some i))\<lparr>tabs := []\<rparr>)
                    ((tabConfigs s)(i \<mapsto> None))) i"
  have flt: "filter (\<lambda>v. v \<noteq> i) (tabs s) = []" by (simp add: assms(1))
  have eq: "closeTab e s i vid = newTab e s4 None None vid"
    unfolding closeTab_decompose nx flt s4_def using assms(2) by (simp add: Let_def)
  have cv: "currentView s = Some (i, w)"
    using assms(2) assms(3) assms(4) by (simp add: currentView_def)
  have tr: "trace s4 = trace s @
                  [RemoveBrowserView (Some i), AddBrowserView (Some i), SetBounds i,
                   Reply (ActiveUpdate i),
                   Reply (TabsUpdate ((tabConfigs s)(i \<mapsto> None)) []),
                   WebContentsDestroy i]"
    unfolding s4_def trace_destroyView trace_set_tabConfigs
    using trace_setCurrentView [OF assms(3), of s] assms(4) assms(5) cv by simp
  have p: "currentViewId s4 = Some i \<and> views s4 i = None \<and> tabs s4 = []"
    using assms(3) by (simp add: s4_def currentViewId_def setCurrentView_active)
  have t: "tabs (closeTab e s i vid) = [vid]"
    using p by (simp add: eq newTab_tabs)
  have f: "vid \<noteq> 0 \<longrightarrow> currentViewId (closeTab e s i vid) = Some vid"
    by (simp add: eq currentViewId_def newTab_active)
  show ?thesis using nx eq tr p t f by blast
qed

text \<open>
  The shell with the single tab 1: before \<^verbatim>\<open>newTab\<close> runs the active id is 1 and view 1
  is gone; afterwards tab 2 is active.
\<close>

theorem closeTab_only_tab_reactivates_closed_witness:
  "tabs demo_one = [1] \<and> currentViewId demo_one = Some 1 \<and> (1::nat) \<noteq> 0
   \<and> views demo_one 1 = Some newView \<and> ipc demo_one
   \<and> (\<exists>s4. closeTab demo_env demo_one 1 2 = newTab demo_env s4 None None 2
          \<and> currentViewId s4 = Some 1 \<and> views s4 1 = None \<and> tabs s4 = [])
   \<and> tabs (closeTab demo_env demo_one 1 2) = [2]
   \<and> currentViewId (closeTab demo_env demo_one 1 2) = Some 2"
proof -
  have a: "tabs demo_one = [1]" and b: "currentViewId demo_one = Some 1"
    and d: "views demo_one 1 = Some newView" and f: "ipc demo_one"
    by (rule demo_one_fields)+
  have c: "(1::nat) \<noteq> 0" by simp
  have th: "(\<exists>s4. closeTab demo_env demo_one 1 2 = newTab demo_env s4 None None 2
          \<and> currentViewId s4 = Some 1 \<and> views s4 1 = None \<and> tabs s4 = [])
      \<and> tabs (closeTab demo_env demo_one 1 2) = [2]
      \<and> ((2::nat) \<noteq> 0 \<longrightarrow> currentViewId (closeTab demo_env demo_one 1 2) = Some 2)"
    using closeTab_only_tab_reactivates_closed [OF a b c d f, of demo_env 2] by blast
  show ?thesis using a b c d f th by simp
qed


section \<open>Opening a tab\<close>

text \<open>
  Claim C4. Where \<^verbatim>\<open>newTab\<close> puts the new id: without an anchor at the end of the tab
  sequence; with an anchor that is in the sequence right after its first occurrence; with
  an anchor that is not in the sequence at the front, since \<^verbatim>\<open>indexOf\<close> yields \<open>-1\<close> and
  the id is spliced in at index 0. The claim expects the end in this last case.
\<close>

theorem newTab_insert_position:
  "tabs (newTab e s url None vid) = tabs s @ [vid]
   \<and> (a \<noteq> 0 \<longrightarrow> a \<notin> set xs \<longrightarrow> tabs s = xs @ a # ys \<longrightarrow>
        tabs (newTab e s url (Some a) vid) = xs @ a # vid # ys)
   \<and> (a \<noteq> 0 \<longrightarrow> a \<notin> set (tabs s) \<longrightarrow>
        tabs (newTab e s url (Some a) vid) = vid # tabs s)"
  by (simp add: newTab_tabs indexOf_first indexOf_absent splice_insert_after splice_insert_front)

text \<open>
  With tabs 1, 2, 3: anchor 2 gives 1, 2, 4, 3; the unknown anchor 9 gives 4, 1, 2, 3 and
  not 1, 2, 3, 4.
\<close>

theorem newTab_insert_position_witness:
  "tabs demo_three = [1, 2, 3]
   \<and> tabs (newTab demo_env demo_three None (Some 2) 4) = [1, 2, 4, 3]
   \<and> tabs (newTab demo_env demo_three None (Some 9) 4) = [4, 1, 2, 3]
   \<and> tabs (newTab demo_env demo_three None (Some 9) 4) \<noteq> tabs demo_three @ [4]"
proof -
  have t: "tabs demo_three = [1] @ 2 # [3]" by (simp add: demo_three_fields)
  have "tabs (newTab demo_env demo_three None (Some 2) 4) = [1] @ 2 # 4 # [3]"
    using newTab_insert_position [of demo_env demo_three None 4 2 "[1]" "[3]"] t by simp
  moreover have "tabs (newTab demo_env demo_three None (Some 9) 4) = 4 # tabs demo_three"
    using newTab_insert_position [of demo_env demo_three None 4 9 "[]" "[]"]
    by (simp add: demo_three_fields)
  ultimately show ?thesis by (simp add: demo_three_fields)
qed


section \<open>Actions on the active view\<close>

text \<open>
  Claim C9. \<^verbatim>\<open>act('reload')\<close> with an active view whose \<^verbatim>\<open>getURL()\<close> is the empty string
  does nothing: the shell's state and the recorded calls stay as they are, so nothing is
  asked of the view that could start a load. With a location loaded, the reload is called
  on the active view's webContents.
\<close>

theorem reload_suppressed_without_location:
  assumes "currentView s = Some (i, w)" and "isFunction e ''reload''"
  shows "(getURL w = [] \<longrightarrow> webContentsAct e s ''reload'' = s)
       \<and> (getURL w \<noteq> [] \<longrightarrow>
            webContentsAct e s ''reload'' = call s (WebContentsCall i ''reload''))"
  using assms by (simp add: webContentsAct_def)

text \<open>
  In the three-tab shell nothing is loaded in the active view and reload does nothing;
  with a page loaded in view 2, reload is called on it.
\<close>

theorem reload_suppressed_without_location_witness:
  "currentView demo_three = Some (2, newView) \<and> getURL newView = []
   \<and> isFunction demo_env ''reload''
   \<and> webContentsAct demo_env demo_three ''reload'' = demo_three
   \<and> webContentsAct demo_env demo_loaded ''reload''
       = call demo_loaded (WebContentsCall 2 ''reload'')"
proof -
  have a: "currentView demo_three = Some (2, newView)"
    by (simp add: currentView_def demo_three_fields demo_three_view)
  have b: "currentView demo_loaded = Some (2, \<lparr>MARKS = True, getURL = ''https://example.com/'',
      canGoBack = False, canGoForward = False\<rparr>)"
    using demo_three_fields(2) by (simp add: currentView_def currentViewId_def demo_loaded_def)
  have f: "isFunction demo_env ''reload''" by (simp add: demo_env_def)
  have u: "getURL newView = []" by (simp add: newView_def)
  have "webContentsAct demo_env demo_three ''reload'' = demo_three"
    using reload_suppressed_without_location [OF a f] u by blast
  moreover have "webContentsAct demo_env demo_loaded ''reload''
       = call demo_loaded (WebContentsCall 2 ''reload'')"
    using reload_suppressed_without_location [OF b f] by simp
  ultimately show ?thesis using a f u by blast
qed


section \<open>Merging into the config store\<close>

text \<open>
  Claim C6, amended. Merging \<^verbatim>\<open>{title: x}\<close> into the entry of \<open>i\<close> gives an entry with
  that title in which every field other than title, canGoBack and canGoForward is as
  before. canGoBack and canGoForward are overwritten on every merge that does not supply
  them: with what the view reports when \<open>i\<close> has a view, with \<^verbatim>\<open>undefined\<close> when it has
  none. A value the caller supplies is kept. The entries of other ids stay as they are.
\<close>

theorem setTabConfig_title_merge:
  "\<exists>t. getProp (tabConfigs (setTabConfig s i [Title \<mapsto> Str x])) i = Some t
       \<and> t Title = Some (Str x)
       \<and> (\<forall>f. f \<noteq> Title \<and> f \<noteq> CanGoBack \<and> f \<noteq> CanGoForward \<longrightarrow>
              t f = spread (getProp (tabConfigs s) i) f)
       \<and> t CanGoBack =
           Some (case views s i of None \<Rightarrow> Undefined | Some w \<Rightarrow> Bool (canGoBack w))
       \<and> t CanGoForward =
           Some (case views s i of None \<Rightarrow> Undefined | Some w \<Rightarrow> Bool (canGoForward w))
       \<and> (\<forall>j. j \<noteq> i \<longrightarrow>
              getProp (tabConfigs (setTabConfig s i [Title \<mapsto> Str x])) j
                = getProp (tabConfigs s) j)
       \<and> (\<forall>b. \<exists>u. getProp (tabConfigs (setTabConfig s i [Title \<mapsto> Str x, CanGoBack \<mapsto> b])) i
                      = Some u \<and> u CanGoBack = Some b)"
proof -
  obtain t where t: "getProp (tabConfigs (setTabConfig s i [Title \<mapsto> Str x])) i = Some t"
    by (simp add: tabConfigs_def setTabConfig_entry)
  have a: "t Title = Some (Str x)"
    using setTabConfig_merged [OF t, of Title] by simp
  have b: "\<forall>f. f \<noteq> Title \<and> f \<noteq> CanGoBack \<and> f \<noteq> CanGoForward \<longrightarrow>
              t f = spread (getProp (tabConfigs s) i) f"
    using setTabConfig_merged [OF t] by simp
  have c: "t CanGoBack =
           Some (case views s i of None \<Rightarrow> Undefined | Some w \<Rightarrow> Bool (canGoBack w))"
    using setTabConfig_merged [OF t, of CanGoBack] by simp
  have d: "t CanGoForward =
           Some (case views s i of None \<Rightarrow> Undefined | Some w \<Rightarrow> Bool (canGoForward w))"
    using setTabConfig_merged [OF t, of CanGoForward] by simp
  have f: "\<forall>j. j \<noteq> i \<longrightarrow>
              getProp (tabConfigs (setTabConfig s i [Title \<mapsto> Str x])) j
                = getProp (tabConfigs s) j"
    by (simp add: setTabConfig_other)
  have g: "\<forall>b. \<exists>u. getProp (tabConfigs (setTabConfig s i [Title \<mapsto> Str x, CanGoBack \<mapsto> b])) i
                      = Some u \<and> u CanGoBack = Some b"
    by (simp add: tabConfigs_def setTabConfig_entry)
  show ?thesis using t a b c d f g by blast
qed

text \<open>
  Claim C6 as stated fails where no view exists: the entry of id 7 holds
  \<^verbatim>\<open>canGoBack: true\<close>, id 7 has no view, and after the merge of a title the field holds
  \<^verbatim>\<open>undefined\<close>.
\<close>

theorem setTabConfig_title_merge_counterexample:
  "views demo_orphan 7 = None
   \<and> spread (getProp (tabConfigs demo_orphan) 7) CanGoBack = Some (Bool True)
   \<and> spread (getProp (tabConfigs (setTabConfig demo_orphan 7 [Title \<mapsto> Str ''X''])) 7) CanGoBack
       = Some Undefined"
  by (simp add: demo_orphan_def setTabConfig_def set_tabConfigs_def tabConfigs_def getProp_def
        spread_def init_def Let_def)

text \<open>The merge of a title into the entry of id 7, which has no view.\<close>

theorem setTabConfig_title_merge_witness:
  "\<exists>t. getProp (tabConfigs (setTabConfig demo_orphan 7 [Title \<mapsto> Str ''X''])) 7 = Some t
       \<and> t Title = Some (Str ''X'')
       \<and> t Href = spread (getProp (tabConfigs demo_orphan) 7) Href
       \<and> t CanGoBack = Some Undefined
       \<and> getProp (tabConfigs (setTabConfig demo_orphan 7 [Title \<mapsto> Str ''X''])) 8
           = getProp (tabConfigs demo_orphan) 8"
proof -
  have v: "views demo_orphan 7 = None"
    by (simp add: demo_orphan_def init_def)
  obtain t where t: "getProp (tabConfigs (setTabConfig demo_orphan 7 [Title \<mapsto> Str ''X''])) 7 = Some t"
    "t Title = Some (Str ''X'')"
    "\<forall>f. f \<noteq> Title \<and> f \<noteq> CanGoBack \<and> f \<noteq> CanGoForward \<longrightarrow>
              t f = spread (getProp (tabConfigs demo_orphan) 7) f"
    "t CanGoBack = Some (case views demo_orphan 7 of None \<Rightarrow> Undefined | Some w \<Rightarrow> Bool (canGoBack w))"
    "\<forall>j. j \<noteq> 7 \<longrightarrow>
              getProp (tabConfigs (setTabConfig demo_orphan 7 [Title \<mapsto> Str ''X''])) j
                = getProp (tabConfigs demo_orphan) j"
    using setTabConfig_title_merge [of demo_orphan 7 "''X''"] by blast
  have "t Href = spread (getProp (tabConfigs demo_orphan) 7) Href" using t(3) by simp
  moreover have "t CanGoBack = Some Undefined" using t(4) v by simp
  moreover have "getProp (tabConfigs (setTabConfig demo_orphan 7 [Title \<mapsto> Str ''X''])) 8
           = getProp (tabConfigs demo_orphan) 8" using t(5) by simp
  ultimately show ?thesis using t(1) t(2) by blast
qed


section \<open>Navigation events\<close>

lemma builtinPages_mem:
  "(''settings'', ''px://settings'') \<in> set builtinPages"
  "(''about'', ''px://about'') \<in> set builtinPages"
  "(''help'', ''px://help'') \<in> set builtinPages"
  "(''web_fail_code'', ''px://network-error'') \<in> set builtinPages"
  "(''credits'', ''px://credits'') \<in> set builtinPages"
  unfolding builtinPages_def by (simp_all only: list.set insert_iff simp_thms)

lemma virtualClean_mem:
  "virtualClean e \<Longrightarrow> (n, v) \<in> set builtinPages \<Longrightarrow> (m, w) \<in> set builtinPages
   \<Longrightarrow> \<not> includes_js w (builtin e n)"
  unfolding virtualClean_def by blast

lemma virtualClean_D:
  assumes "virtualClean e"
  shows "\<not> includes_js ''px://settings'' (builtin e ''about'')"
    "\<not> includes_js ''px://settings'' (builtin e ''help'')"
    "\<not> includes_js ''px://settings'' (builtin e ''web_fail_code'')"
    "\<not> includes_js ''px://settings'' (builtin e ''credits'')"
    "\<not> includes_js ''px://about'' (builtin e ''help'')"
    "\<not> includes_js ''px://about'' (builtin e ''web_fail_code'')"
    "\<not> includes_js ''px://about'' (builtin e ''credits'')"
    "\<not> includes_js ''px://help'' (builtin e ''web_fail_code'')"
    "\<not> includes_js ''px://help'' (builtin e ''credits'')"
    "\<not> includes_js ''px://network-error'' (builtin e ''credits'')"
  by (rule virtualClean_mem [OF assms builtinPages_mem(2) builtinPages_mem(1)]
           virtualClean_mem [OF assms builtinPages_mem(3) builtinPages_mem(1)]
           virtualClean_mem [OF assms builtinPages_mem(4) builtinPages_mem(1)]
           virtualClean_mem [OF assms builtinPages_mem(5) builtinPages_mem(1)]
           virtualClean_mem [OF assms builtinPages_mem(3) builtinPages_mem(2)]
           virtualClean_mem [OF assms builtinPages_mem(4) builtinPages_mem(2)]
           virtualClean_mem [OF assms builtinPages_mem(5) builtinPages_mem(2)]
           virtualClean_mem [OF assms builtinPages_mem(4) builtinPages_mem(3)]
           virtualClean_mem [OF assms builtinPages_mem(5) builtinPages_mem(3)]
           virtualClean_mem [OF assms builtinPages_mem(5) builtinPages_mem(4)])+

lemma rewrite_firstMatch:
  assumes "virtualClean e" and "Some href \<noteq> blankPage (options e)"
  shows "rewrite e href = (case firstMatch e href of None \<Rightarrow> href | Some (n, v) \<Rightarrow> v)"
proof -
  note c = virtualClean_D [OF assms(1)]
  show ?thesis
  proof (cases "includes_js href (builtin e ''settings'')")
    case True
    then show ?thesis
      using assms(2) c(1-4) by (simp add: rewrite_def firstMatch_def builtinPages_def)
  next
    case s: False
    show ?thesis
    proof (cases "includes_js href (builtin e ''about'')")
      case True
      then show ?thesis
        using assms(2) s c(5-7) by (simp add: rewrite_def firstMatch_def builtinPages_def)
    next
      case a: False
      show ?thesis
      proof (cases "includes_js href (builtin e ''help'')")
        case True
        then show ?thesis
          using assms(2) s a c(8-9) by (simp add: rewrite_def firstMatch_def builtinPages_def)
      next
        case h: False
        show ?thesis
        proof (cases "includes_js href (builtin e ''web_fail_code'')")
          case True
          then show ?thesis
            using assms(2) s a h c(10) by (simp add: rewrite_def firstMatch_def builtinPages_def)
        next
          case False
          then show ?thesis
            using assms(2) s a h by (simp add: rewrite_def firstMatch_def builtinPages_def)
        qed
      qed
    qed
  qed
qed

lemma firstMatch_Some:
  "firstMatch e href = Some (n, v) \<Longrightarrow>
     (n, v) \<in> set builtinPages \<and> includes_js href (builtin e n)"
  unfolding firstMatch_def by (auto simp add: find_Some_iff in_set_conv_nth)

text \<open>
  What the navigation listener writes in general: the five tests run in a fixed order, each
  on the outcome of the one before, so the address written is that of the first built-in
  page whose locator occurs in the loaded locator.
\<close>

lemma didStartNavigation_writes_first_match:
  assumes "virtualClean e" and "Some href \<noteq> blankPage (options e)"
    and "firstMatch e href = Some (n, v)"
  shows "(\<exists>t. getProp (tabConfigs (didStartNavigation e s i href isInPlace True)) i = Some t
            \<and> t Url = Some (Str v) \<and> t Href = Some (Str v))
       \<and> trace (didStartNavigation e s i href isInPlace True) =
           trace s
           @ (if ipc s
              then [Reply (TabsUpdate (tabConfigs (didStartNavigation e s i href isInPlace True))
                             (tabs s))]
              else [])
           @ [EmitUrlUpdated i v]
       \<and> (n, v) \<in> set builtinPages
       \<and> includes_js href (builtin e n)
       \<and> \<not> includes_js v (builtin e n)"
proof -
  have rw: "rewrite e href = v"
    using rewrite_firstMatch [OF assms(1) assms(2)] assms(3) by simp
  have mem: "(n, v) \<in> set builtinPages \<and> includes_js href (builtin e n)"
    using assms(3) by (rule firstMatch_Some)
  have clean: "\<not> includes_js v (builtin e n)"
    using assms(1) mem unfolding virtualClean_def by blast
  have ent: "\<exists>t. getProp (tabConfigs (didStartNavigation e s i href isInPlace True)) i = Some t
            \<and> t Url = Some (Str v) \<and> t Href = Some (Str v)"
    by (simp add: didStartNavigation_def rw tabConfigs_def setTabConfig_entry)
  have tr: "trace (didStartNavigation e s i href isInPlace True) =
           trace s
           @ (if ipc s
              then [Reply (TabsUpdate (tabConfigs (didStartNavigation e s i href isInPlace True))
                             (tabs s))]
              else [])
           @ [EmitUrlUpdated i v]"
    by (simp add: didStartNavigation_def rw trace_setTabConfig tabConfigs_def)
  show ?thesis using ent tr mem clean by blast
qed

text \<open>A navigation of the second tab to the about page is shown as \<^verbatim>\<open>px://about\<close>.\<close>

lemma didStartNavigation_about_example:
  "\<exists>t. getProp (tabConfigs
            (emit_event demo_env demo_browsing 2
               (DidStartNavigation (builtin demo_env ''about'') False True))) 2
          = Some t
        \<and> t Url = Some (Str ''px://about'') \<and> t Href = Some (Str ''px://about'')"
proof -
  have b: "Some (builtin demo_env ''about'') \<noteq> blankPage (options demo_env)"
    by (simp add: demo_env_def)
  have "emit_event demo_env demo_browsing 2
               (DidStartNavigation (builtin demo_env ''about'') False True)
      = didStartNavigation demo_env demo_browsing 2 (builtin demo_env ''about'') False True"
    by (simp add: emit_event_bound [OF demo_browsing_view])
  then show ?thesis
    using didStartNavigation_writes_first_match
            [OF demo_virtualClean b demo_about_match, of demo_browsing 2 False]
    by simp
qed

lemma rewrite_settings:
  assumes "virtualClean e" and "Some href \<noteq> blankPage (options e)"
    and "includes_js href (builtin e ''settings'')"
  shows "rewrite e href = ''px://settings''"
  using assms(2) assms(3) virtualClean_D(1-4) [OF assms(1)] by (simp add: rewrite_def)

text \<open>
  Claim C5. A main-frame navigation to a built-in page is to be shown under the address of
  that page. The listener has a branch of its own for the error page,
  \<^verbatim>\<open>web_fail_code.html\<close> to \<^verbatim>\<open>px://network-error\<close>, but the test for the settings page
  comes first and looks at the whole locator: whenever the locator of the settings page
  occurs anywhere in the loaded locator, also in the query of the error page, what is
  written is \<^verbatim>\<open>px://settings\<close>.
\<close>

theorem didStartNavigation_settings_locator_wins:
  assumes "views s i = Some w" and "MARKS w"
    and "virtualClean e" and "Some href \<noteq> blankPage (options e)"
    and "includes_js href (builtin e ''settings'')"
  shows "\<exists>t. getProp (tabConfigs (emit_event e s i (DidStartNavigation href isInPlace True))) i
              = Some t
           \<and> t Url = Some (Str ''px://settings'') \<and> t Href = Some (Str ''px://settings'')"
proof -
  have rw: "rewrite e href = ''px://settings''"
    using assms(3) assms(4) assms(5) by (rule rewrite_settings)
  have "emit_event e s i (DidStartNavigation href isInPlace True)
      = didStartNavigation e s i href isInPlace True"
    using assms(1) assms(2) by (simp add: emit_event_bound)
  then show ?thesis
    by (simp add: didStartNavigation_def rw tabConfigs_def setTabConfig_entry Let_def)
qed

text \<open>
  The settings page fails in the second tab, the listener of \<^verbatim>\<open>did-fail-load\<close> loads the
  error page with the failed locator in its query, and the navigation to the error page is
  shown as \<^verbatim>\<open>px://settings\<close>. The error page of a failed credits page is shown as
  \<^verbatim>\<open>px://network-error\<close>.
\<close>

theorem didStartNavigation_settings_locator_wins_witness:
  "views demo_browsing 2 = Some (newView\<lparr>MARKS := True\<rparr>)
   \<and> virtualClean demo_env
   \<and> Some demo_fail_href \<noteq> blankPage (options demo_env)
   \<and> includes_js demo_fail_href (builtin demo_env ''settings'')
   \<and> startsWith demo_fail_href (builtin demo_env ''web_fail_code'')
   \<and> (\<exists>t. getProp (tabConfigs
              (steps demo_env demo_browsing
                 [Event 2 (DidFailLoad (- 3) ''ERR_ABORTED'' (builtin demo_env ''settings'') True),
                  Event 2 (DidStartNavigation demo_fail_href False True)])) 2
            = Some t
          \<and> t Url = Some (Str ''px://settings'') \<and> t Href = Some (Str ''px://settings''))
   \<and> rewrite demo_env demo_credits_fail_href = ''px://network-error''"
proof -
  define s1 where "s1 = emit_event demo_env demo_browsing 2
     (DidFailLoad (- 3) ''ERR_ABORTED'' (builtin demo_env ''settings'') True)"
  have v: "views s1 2 = Some (newView\<lparr>MARKS := True\<rparr>)"
    by (simp add: s1_def demo_browsing_view)
  have m: "MARKS (newView\<lparr>MARKS := True\<rparr>)" by simp
  have b: "Some demo_fail_href \<noteq> blankPage (options demo_env)"
    by (simp add: demo_env_def)
  have st: "steps demo_env demo_browsing
                 [Event 2 (DidFailLoad (- 3) ''ERR_ABORTED'' (builtin demo_env ''settings'') True),
                  Event 2 (DidStartNavigation demo_fail_href False True)]
          = emit_event demo_env s1 2 (DidStartNavigation demo_fail_href False True)"
    by (simp add: steps_def s1_def)
  have "\<exists>t. getProp (tabConfigs
              (emit_event demo_env s1 2 (DidStartNavigation demo_fail_href False True))) 2
            = Some t
          \<and> t Url = Some (Str ''px://settings'') \<and> t Href = Some (Str ''px://settings'')"
    using v m demo_virtualClean b demo_fail_href_includes(2)
    by (rule didStartNavigation_settings_locator_wins)
  then show ?thesis
    unfolding st
    using demo_browsing_view demo_virtualClean b demo_fail_href_includes
      demo_credits_fail_rewrite by blast
qed

text \<open>
  Claim C7. What the \<^verbatim>\<open>will-redirect\<close> listener does: for the main frame and for any
  other frame alike it writes the location as it is given, not rewritten, into url and
  href, sends the snapshot and emits url-updated. The \<^verbatim>\<open>did-start-navigation\<close> listener
  ignores an event that is not for the main frame. The claim expects the redirect to be
  handled as the navigation is.
\<close>

theorem willRedirect_writes_raw_location:
  "listener e s i (WillRedirect href isInPlace isMainFrame) = willRedirect s i href
   \<and> (\<exists>t. getProp (tabConfigs (listener e s i (WillRedirect href isInPlace isMainFrame))) i
             = Some t
          \<and> t Url = Some (Str href) \<and> t Href = Some (Str href))
   \<and> trace (listener e s i (WillRedirect href isInPlace isMainFrame)) =
       trace s
       @ (if ipc s then [Reply (TabsUpdate (tabConfigs (willRedirect s i href)) (tabs s))] else [])
       @ [EmitUrlUpdated i href]
   \<and> listener e s i (DidStartNavigation href isInPlace False) = s"
  by (simp add: willRedirect_def didStartNavigation_def tabConfigs_def setTabConfig_entry
        trace_setTabConfig)

text \<open>
  In the second tab, whose listeners are bound: a redirect in a frame that is not the main
  frame replaces the url of the tab, where the navigation listener leaves the shell as it
  is; a redirect to the settings page writes the physical locator, where the navigation
  listener writes \<^verbatim>\<open>px://settings\<close>.
\<close>

theorem willRedirect_writes_raw_location_witness:
  "views demo_browsing 2 = Some (newView\<lparr>MARKS := True\<rparr>)
   \<and> (\<exists>t. getProp (tabConfigs
            (emit_event demo_env demo_browsing 2
               (WillRedirect ''https://ads.example/'' False False))) 2
          = Some t
        \<and> t Url = Some (Str ''https://ads.example/''))
   \<and> emit_event demo_env demo_browsing 2
         (DidStartNavigation ''https://ads.example/'' False False)
       = demo_browsing
   \<and> (\<exists>t. getProp (tabConfigs
            (emit_event demo_env demo_browsing 2
               (WillRedirect (builtin demo_env ''settings'') False True))) 2
          = Some t
        \<and> t Url = Some (Str (builtin demo_env ''settings'')))
   \<and> rewrite demo_env (builtin demo_env ''settings'') = ''px://settings''"
proof -
  have r: "rewrite demo_env (builtin demo_env ''settings'') = ''px://settings''"
    by (simp add: rewrite_def Let_def demo_env_builtin) (simp add: demo_env_def)
  have m: "MARKS (newView\<lparr>MARKS := True\<rparr>)" by simp
  note bound = emit_event_bound [OF demo_browsing_view m, of demo_env]
  show ?thesis
    unfolding bound
    using willRedirect_writes_raw_location
            [of demo_env demo_browsing 2 "''https://ads.example/''" False False]
          willRedirect_writes_raw_location
            [of demo_env demo_browsing 2 "builtin demo_env ''settings''" False True]
          r demo_browsing_view
    by blast
qed

end
